theory Spec2Isabelle
  imports Main
begin

section \<open>Values, messages and the host's JSON functions\<close>

text \<open>
  The client exchanges JavaScript values with its caller and with the server. A value is
  one of the shapes below; an object is the list of its properties in insertion order and
  is read with \<open>map_of\<close>. Numbers are never inspected by the client, so an integer
  payload stands for them. \<open>JUndefined\<close> is the value of a property that is absent or
  explicitly undefined; \<open>JSON.parse\<close> never produces it.
\<close>

datatype jsval =
    JUndefined
  | JNull
  | JBool bool
  | JNum int
  | JStr string
  | JArr "jsval list"
  | JObj "(string \<times> jsval) list"

datatype error = SyntaxError | TypeError

text \<open>
  \<open>ItemType extends { id?: IdType }\<close> is an object type: an item is given by its
  properties.
\<close>

type_synonym item = "(string \<times> jsval) list"

text \<open>\<open>type MethodString = "CREATE" | "UPDATE" | "DELETE"\<close> and the three static strings.\<close>

datatype MethodString = CREATE | UPDATE | DELETE

fun method_text :: "MethodString \<Rightarrow> string" where
  "method_text CREATE = ''CREATE''"
| "method_text UPDATE = ''UPDATE''"
| "method_text DELETE = ''DELETE''"

definition createMethodString :: MethodString where
  "createMethodString = CREATE"

definition updateMethodString :: MethodString where
  "updateMethodString = UPDATE"

definition deleteMethodString :: MethodString where
  "deleteMethodString = DELETE"

text \<open>
  Property read \<open>v.k\<close>. On an object it is the stored value, or undefined when the key
  is absent. The client reads properties of objects only (an item, or a message that
  passed \<open>isUpdateMessage\<close>); for the other shapes the three keys it uses
  (\<open>method\<close>, \<open>id\<close>, \<open>item\<close>) are not defined.
\<close>

fun js_get :: "jsval \<Rightarrow> string \<Rightarrow> jsval" where
  "js_get (JObj fs) k = (case map_of fs k of None \<Rightarrow> JUndefined | Some v \<Rightarrow> v)"
| "js_get _ k = JUndefined"

text \<open>
  The operator \<open>k in v\<close> for the keys \<open>method\<close>, \<open>id\<close> and \<open>item\<close>, none of
  which is inherited from \<open>Object.prototype\<close> or \<open>Array.prototype\<close>: on an object it
  tells whether the key is present, on an array it is false, and on a primitive value
  (undefined, null, a boolean, a number, a string) it throws a TypeError.
\<close>

fun js_in :: "string \<Rightarrow> jsval \<Rightarrow> error + bool" where
  "js_in k (JObj fs) = Inr (k \<in> set (map fst fs))"
| "js_in k (JArr xs) = Inr False"
| "js_in k _ = Inl TypeError"

text \<open>\<open>typeof v == "string"\<close>.\<close>

fun typeof_is_string :: "jsval \<Rightarrow> bool" where
  "typeof_is_string (JStr s) = True"
| "typeof_is_string _ = False"

text \<open>
  \<open>ev.data\<close> is text, and \<open>JSON.parse\<close> is the host's: the payload of a message event
  is given by what the parser makes of it, either a text outside the JSON grammar, on
  which it throws a SyntaxError, or the value it returns.
\<close>

datatype ev_data = NotJson | Json jsval

fun JSON_parse :: "ev_data \<Rightarrow> error + jsval" where
  "JSON_parse NotJson = Inl SyntaxError"
| "JSON_parse (Json v) = Inr v"

section \<open>The validators\<close>

text \<open>
  \<open>isUpdateMessage\<close> of the client with the buffering gate (generic in the type of the
  identifier). The conjunction is evaluated left to right and stops at the first false
  conjunct; an exception of \<open>in\<close> leaves the function.
\<close>

definition isUpdateMessage :: "jsval \<Rightarrow> error + bool" where
  "isUpdateMessage updMess =
     (case js_in ''method'' updMess of
        Inl e \<Rightarrow> Inl e
      | Inr has_method \<Rightarrow>
          if \<not> has_method then Inr False
          else if \<not> (js_get updMess ''method'' = JStr (method_text createMethodString) \<or>
                      js_get updMess ''method'' = JStr (method_text updateMethodString) \<or>
                      js_get updMess ''method'' = JStr (method_text deleteMethodString))
          then Inr False
          else (case js_in ''id'' updMess of
                  Inl e \<Rightarrow> Inl e
                | Inr has_id \<Rightarrow>
                    if \<not> has_id then Inr False
                    else (case js_in ''item'' updMess of
                            Inl e \<Rightarrow> Inl e
                          | Inr has_item \<Rightarrow> Inr has_item)))"

text \<open>
  \<open>isUpdateMessage\<close> of \<open>src/index.ts\<close>, the client without the gate, whose identifiers
  are strings: it also asks for \<open>typeof updMess.id == "string"\<close>.
\<close>

definition isUpdateMessage_index :: "jsval \<Rightarrow> error + bool" where
  "isUpdateMessage_index updMess =
     (case js_in ''method'' updMess of
        Inl e \<Rightarrow> Inl e
      | Inr has_method \<Rightarrow>
          if \<not> has_method then Inr False
          else if \<not> (js_get updMess ''method'' = JStr (method_text createMethodString) \<or>
                      js_get updMess ''method'' = JStr (method_text updateMethodString) \<or>
                      js_get updMess ''method'' = JStr (method_text deleteMethodString))
          then Inr False
          else (case js_in ''id'' updMess of
                  Inl e \<Rightarrow> Inl e
                | Inr has_id \<Rightarrow>
                    if \<not> has_id then Inr False
                    else if \<not> typeof_is_string (js_get updMess ''id'') then Inr False
                    else (case js_in ''item'' updMess of
                            Inl e \<Rightarrow> Inl e
                          | Inr has_item \<Rightarrow> Inr has_item)))"

section \<open>The client\<close>

text \<open>
  A handler is a function of the caller. The model knows it by an identifier and records
  each invocation with its argument; the body of a handler runs to completion, returns
  normally and does not call back into the client.
\<close>

type_synonym handler = nat

datatype effect =
    NewWebSocket string
  | WsSend jsval
  | CallOnCreate handler jsval
  | CallOnUpdate handler jsval
  | CallOnDelete handler jsval
  | CallOnOpen handler
  | CallOnClose handler
  | Uncaught error

text \<open>
  \<open>WsSend m\<close> is \<open>this.ws.send(JSON.stringify(m))\<close>: the frame is known by the message
  object that the host serialises. \<open>Uncaught e\<close> marks, in the trace of a run, an
  exception that left an entry point of the client.
\<close>

record client =
  url :: string
  hasConnBeenOpened :: bool
  hasConnBeenClosed :: bool
  cachedReceivedUpdates :: "jsval list"
  cachedUpdatesToSend :: "jsval list"
  isOnCreateSet :: bool
  isOnUpdateSet :: bool
  isOnDeleteSet :: bool
  isOnOpenSet :: bool
  isOnCloseSet :: bool
  priv_oncreate :: "handler option"
  priv_onupdate :: "handler option"
  priv_ondelete :: "handler option"
  priv_onopen :: "handler option"
  priv_onclose :: "handler option"

text \<open>
  The fields \<open>priv_oncreate\<close>, ... are the private \<open>_oncreate\<close>, ... of the class, undefined
  (\<open>None\<close>) until assigned; calling an undefined one throws a TypeError.

  An entry point either returns or throws; in both cases it has performed some effects
  and left the client in some state.
\<close>

datatype outcome =
    Returns "effect list" client
  | Throws error "effect list" client

fun effects_of :: "outcome \<Rightarrow> effect list" where
  "effects_of (Returns effs c) = effs"
| "effects_of (Throws e effs c) = effs"

fun client_of :: "outcome \<Rightarrow> client" where
  "client_of (Returns effs c) = c"
| "client_of (Throws e effs c) = c"

fun returns :: "outcome \<Rightarrow> bool" where
  "returns (Returns effs c) = True"
| "returns (Throws e effs c) = False"

definition constructor :: "string \<Rightarrow> outcome" where
  "constructor u =
     Returns [NewWebSocket u]
       \<lparr> url = u,
         hasConnBeenOpened = False,
         hasConnBeenClosed = False,
         cachedReceivedUpdates = [],
         cachedUpdatesToSend = [],
         isOnCreateSet = False,
         isOnUpdateSet = False,
         isOnDeleteSet = False,
         isOnOpenSet = False,
         isOnCloseSet = False,
         priv_oncreate = None,
         priv_onupdate = None,
         priv_ondelete = None,
         priv_onopen = None,
         priv_onclose = None \<rparr>"

definition processUpdate :: "client \<Rightarrow> jsval \<Rightarrow> error + effect list" where
  "processUpdate c updMess =
     (if js_get updMess ''method'' = JStr (method_text createMethodString) then
        (case priv_oncreate c of
           None \<Rightarrow> Inl TypeError
         | Some h \<Rightarrow> Inr [CallOnCreate h (js_get updMess ''item'')])
      else if js_get updMess ''method'' = JStr (method_text updateMethodString) then
        (case priv_onupdate c of
           None \<Rightarrow> Inl TypeError
         | Some h \<Rightarrow> Inr [CallOnUpdate h (js_get updMess ''item'')])
      else if js_get updMess ''method'' = JStr (method_text deleteMethodString) then
        (case priv_ondelete c of
           None \<Rightarrow> Inl TypeError
         | Some h \<Rightarrow> Inr [CallOnDelete h (js_get updMess ''item'')])
      else Inr [])"

text \<open>
  \<open>this.cachedReceivedUpdates.forEach(updMess => this.processUpdate(updMess))\<close>: the
  effects performed, and the exception that stopped the loop, if any.
\<close>

fun forEach_processUpdate :: "client \<Rightarrow> jsval list \<Rightarrow> effect list \<times> error option" where
  "forEach_processUpdate c [] = ([], None)"
| "forEach_processUpdate c (updMess # rest) =
     (case processUpdate c updMess of
        Inl e \<Rightarrow> ([], Some e)
      | Inr effs \<Rightarrow>
          (case forEach_processUpdate c rest of
             (effs', r) \<Rightarrow> (effs @ effs', r)))"

definition ws_onopen :: "client \<Rightarrow> outcome" where
  "ws_onopen c =
     (let c1 = c\<lparr>hasConnBeenOpened := True\<rparr> in
      if isOnOpenSet c1 then
        (case priv_onopen c1 of
           None \<Rightarrow> Throws TypeError [] c1
         | Some h \<Rightarrow>
             Returns (CallOnOpen h # map WsSend (cachedUpdatesToSend c1))
                     (c1\<lparr>cachedUpdatesToSend := []\<rparr>))
      else Returns (map WsSend (cachedUpdatesToSend c1)) (c1\<lparr>cachedUpdatesToSend := []\<rparr>))"

definition ws_onmessage :: "ev_data \<Rightarrow> client \<Rightarrow> outcome" where
  "ws_onmessage data c =
     (case JSON_parse data of
        Inl e \<Rightarrow> Throws e [] c
      | Inr updMess \<Rightarrow>
          (case isUpdateMessage updMess of
             Inl e \<Rightarrow> Throws e [] c
           | Inr valid \<Rightarrow>
               if valid then
                 if \<not> isOnCreateSet c \<or> \<not> isOnUpdateSet c \<or> \<not> isOnDeleteSet c then
                   Returns [] (c\<lparr>cachedReceivedUpdates := cachedReceivedUpdates c @ [updMess]\<rparr>)
                 else
                   (case processUpdate c updMess of
                      Inl e \<Rightarrow> Throws e [] c
                    | Inr effs \<Rightarrow> Returns effs c)
               else Returns [] c))"

definition ws_onclose :: "client \<Rightarrow> outcome" where
  "ws_onclose c =
     (let c1 = c\<lparr>hasConnBeenClosed := True\<rparr> in
      if isOnCloseSet c1 then
        (case priv_onclose c1 of
           None \<Rightarrow> Throws TypeError [] c1
         | Some h \<Rightarrow> Returns [CallOnClose h] c1)
      else Returns [] c1)"

text \<open>
  The local \<open>updMess\<close> of \<open>craftAndSendUpdateMessage\<close>: \<open>method\<close> and \<open>item\<close>, and
  \<open>id\<close> when \<open>item.id !== undefined\<close>.
\<close>

definition updMess_of :: "item \<Rightarrow> MethodString \<Rightarrow> jsval" where
  "updMess_of it method =
     (let updMess = [(''method'', JStr (method_text method)), (''item'', JObj it)] in
      if js_get (JObj it) ''id'' \<noteq> JUndefined
      then JObj (updMess @ [(''id'', js_get (JObj it) ''id'')])
      else JObj updMess)"

definition craftAndSendUpdateMessage :: "item \<Rightarrow> MethodString \<Rightarrow> client \<Rightarrow> outcome" where
  "craftAndSendUpdateMessage it method c =
     (let updMess = updMess_of it method in
      if \<not> hasConnBeenOpened c then
        Returns [] (c\<lparr>cachedUpdatesToSend := cachedUpdatesToSend c @ [updMess]\<rparr>)
      else Returns [WsSend updMess] c)"

definition create :: "item \<Rightarrow> client \<Rightarrow> outcome" where
  "create it c = craftAndSendUpdateMessage it createMethodString c"

definition update :: "item \<Rightarrow> client \<Rightarrow> outcome" where
  "update it c = craftAndSendUpdateMessage it updateMethodString c"

definition delete :: "item \<Rightarrow> client \<Rightarrow> outcome" where
  "delete it c = craftAndSendUpdateMessage it deleteMethodString c"

text \<open>
  \<open>craftUpdateMessage\<close> of \<open>src/index.ts\<close> returns \<open>JSON.stringify(updMess)\<close>; the model
  returns the object that is serialised.
\<close>

definition craftUpdateMessage :: "MethodString \<Rightarrow> item \<Rightarrow> jsval" where
  "craftUpdateMessage method it =
     (let updMess = [(''method'', JStr (method_text method)), (''item'', JObj it)] in
      if js_get (JObj it) ''id'' \<noteq> JUndefined
      then JObj (updMess @ [(''id'', js_get (JObj it) ''id'')])
      else JObj updMess)"

text \<open>The setters. Each assigns the handler first, drains the cache if it completes the
  three, and sets its flag last.\<close>

definition set_oncreate :: "handler \<Rightarrow> client \<Rightarrow> outcome" where
  "set_oncreate h c =
     (let c1 = c\<lparr>priv_oncreate := Some h\<rparr> in
      if \<not> isOnCreateSet c1 \<and> isOnUpdateSet c1 \<and> isOnDeleteSet c1 then
        (case forEach_processUpdate c1 (cachedReceivedUpdates c1) of
           (effs, Some e) \<Rightarrow> Throws e effs c1
         | (effs, None) \<Rightarrow>
             Returns effs (c1\<lparr>cachedReceivedUpdates := [], isOnCreateSet := True\<rparr>))
      else Returns [] (c1\<lparr>isOnCreateSet := True\<rparr>))"

definition set_onupdate :: "handler \<Rightarrow> client \<Rightarrow> outcome" where
  "set_onupdate h c =
     (let c1 = c\<lparr>priv_onupdate := Some h\<rparr> in
      if isOnCreateSet c1 \<and> \<not> isOnUpdateSet c1 \<and> isOnDeleteSet c1 then
        (case forEach_processUpdate c1 (cachedReceivedUpdates c1) of
           (effs, Some e) \<Rightarrow> Throws e effs c1
         | (effs, None) \<Rightarrow>
             Returns effs (c1\<lparr>cachedReceivedUpdates := [], isOnUpdateSet := True\<rparr>))
      else Returns [] (c1\<lparr>isOnUpdateSet := True\<rparr>))"

definition set_ondelete :: "handler \<Rightarrow> client \<Rightarrow> outcome" where
  "set_ondelete h c =
     (let c1 = c\<lparr>priv_ondelete := Some h\<rparr> in
      if isOnCreateSet c1 \<and> isOnUpdateSet c1 \<and> \<not> isOnDeleteSet c1 then
        (case forEach_processUpdate c1 (cachedReceivedUpdates c1) of
           (effs, Some e) \<Rightarrow> Throws e effs c1
         | (effs, None) \<Rightarrow>
             Returns effs (c1\<lparr>cachedReceivedUpdates := [], isOnDeleteSet := True\<rparr>))
      else Returns [] (c1\<lparr>isOnDeleteSet := True\<rparr>))"

definition set_onopen :: "handler \<Rightarrow> client \<Rightarrow> outcome" where
  "set_onopen h c =
     (let c1 = c\<lparr>priv_onopen := Some h, isOnOpenSet := True\<rparr> in
      if hasConnBeenOpened c1 then Returns [CallOnOpen h] c1 else Returns [] c1)"

definition set_onclose :: "handler \<Rightarrow> client \<Rightarrow> outcome" where
  "set_onclose h c =
     (let c1 = c\<lparr>priv_onclose := Some h, isOnCloseSet := True\<rparr> in
      if hasConnBeenClosed c1 then Returns [CallOnClose h] c1 else Returns [] c1)"

section \<open>Runs\<close>

text \<open>
  What can happen to a client: an event of the transport, a call of a mutation method,
  or an assignment to one of the five handlers. The host runs each to completion before
  the next; an exception leaves the entry point and the client stays as it was left.
\<close>

datatype event =
    WsOpen
  | WsMessage ev_data
  | WsClose
  | Create item
  | Update item
  | Delete item
  | SetOnCreate handler
  | SetOnUpdate handler
  | SetOnDelete handler
  | SetOnOpen handler
  | SetOnClose handler

fun step :: "event \<Rightarrow> client \<Rightarrow> outcome" where
  "step WsOpen c = ws_onopen c"
| "step (WsMessage d) c = ws_onmessage d c"
| "step WsClose c = ws_onclose c"
| "step (Create it) c = create it c"
| "step (Update it) c = update it c"
| "step (Delete it) c = delete it c"
| "step (SetOnCreate h) c = set_oncreate h c"
| "step (SetOnUpdate h) c = set_onupdate h c"
| "step (SetOnDelete h) c = set_ondelete h c"
| "step (SetOnOpen h) c = set_onopen h c"
| "step (SetOnClose h) c = set_onclose h c"

fun observed :: "outcome \<Rightarrow> effect list" where
  "observed (Returns effs c) = effs"
| "observed (Throws e effs c) = effs @ [Uncaught e]"

fun run :: "event list \<Rightarrow> client \<Rightarrow> effect list \<times> client" where
  "run [] c = ([], c)"
| "run (e # es) c =
     (case run es (client_of (step e c)) of
        (tr, c') \<Rightarrow> (observed (step e c) @ tr, c'))"

text \<open>The states a run goes through, the first one included.\<close>

fun states :: "event list \<Rightarrow> client \<Rightarrow> client list" where
  "states [] c = [c]"
| "states (e # es) c = c # states es (client_of (step e c))"

definition fresh :: "string \<Rightarrow> client" where
  "fresh u = client_of (constructor u)"

section \<open>Notions used in the statements\<close>

text \<open>The readiness axis: all of create, update and delete have been registered.\<close>

definition handlers_ready :: "client \<Rightarrow> bool" where
  "handlers_ready c = (isOnCreateSet c \<and> isOnUpdateSet c \<and> isOnDeleteSet c)"

text \<open>
  The connection axis, read off the two booleans of the class; a connection that has been
  closed counts as closed whether or not it had been opened.
\<close>

datatype lifecycle = NotYetOpen | Open | Closed

definition lifecycle_of :: "client \<Rightarrow> lifecycle" where
  "lifecycle_of c =
     (if hasConnBeenClosed c then Closed
      else if hasConnBeenOpened c then Open
      else NotYetOpen)"

fun rank :: "lifecycle \<Rightarrow> nat" where
  "rank NotYetOpen = 0"
| "rank Open = 1"
| "rank Closed = 2"

text \<open>Kinds of effects in a trace.\<close>

fun is_mutation_call :: "effect \<Rightarrow> bool" where
  "is_mutation_call (CallOnCreate h v) = True"
| "is_mutation_call (CallOnUpdate h v) = True"
| "is_mutation_call (CallOnDelete h v) = True"
| "is_mutation_call _ = False"

fun is_send :: "effect \<Rightarrow> bool" where
  "is_send (WsSend m) = True"
| "is_send _ = False"

fun is_open_call :: "effect \<Rightarrow> bool" where
  "is_open_call (CallOnOpen h) = True"
| "is_open_call _ = False"

fun is_close_call :: "effect \<Rightarrow> bool" where
  "is_close_call (CallOnClose h) = True"
| "is_close_call _ = False"

text \<open>The messages that the mutation calls of a run construct, in the order of the calls.\<close>

fun request_of :: "event \<Rightarrow> jsval list" where
  "request_of (Create it) = [updMess_of it createMethodString]"
| "request_of (Update it) = [updMess_of it updateMethodString]"
| "request_of (Delete it) = [updMess_of it deleteMethodString]"
| "request_of _ = []"

definition requested :: "event list \<Rightarrow> jsval list" where
  "requested es = concat (map request_of es)"

text \<open>The messages of a run that parse and pass \<open>isUpdateMessage\<close>, in arrival order.\<close>

fun received_of :: "event \<Rightarrow> jsval list" where
  "received_of (WsMessage d) =
     (case JSON_parse d of
        Inl e \<Rightarrow> []
      | Inr updMess \<Rightarrow> if isUpdateMessage updMess = Inr True then [updMess] else [])"
| "received_of _ = []"

definition received :: "event list \<Rightarrow> jsval list" where
  "received es = concat (map received_of es)"

text \<open>
  The callback that a valid message is owed: \<open>CREATE\<close> goes to the create handler,
  \<open>UPDATE\<close> to the update handler and \<open>DELETE\<close> to the delete handler, each with the
  message's item.
\<close>

definition callback_for :: "handler \<Rightarrow> handler \<Rightarrow> handler \<Rightarrow> jsval \<Rightarrow> effect" where
  "callback_for hc hu hdl updMess =
     (if js_get updMess ''method'' = JStr ''CREATE'' then CallOnCreate hc (js_get updMess ''item'')
      else if js_get updMess ''method'' = JStr ''UPDATE'' then CallOnUpdate hu (js_get updMess ''item'')
      else CallOnDelete hdl (js_get updMess ''item''))"

text \<open>The method of a record is one of the three recognised strings.\<close>

definition method_ok :: "jsval \<Rightarrow> bool" where
  "method_ok updMess =
     (js_get updMess ''method'' = JStr ''CREATE'' \<or>
      js_get updMess ''method'' = JStr ''UPDATE'' \<or>
      js_get updMess ''method'' = JStr ''DELETE'')"

text \<open>
  What every client reached from the constructor satisfies: a flag is set only after its
  handler was assigned, the cache of received updates is empty once the three mutation
  handlers are set, and the cache of updates to send is empty once the connection has
  been opened.
\<close>

definition wired :: "client \<Rightarrow> bool" where
  "wired c =
     ((isOnCreateSet c \<longrightarrow> priv_oncreate c \<noteq> None) \<and>
      (isOnUpdateSet c \<longrightarrow> priv_onupdate c \<noteq> None) \<and>
      (isOnDeleteSet c \<longrightarrow> priv_ondelete c \<noteq> None) \<and>
      (isOnOpenSet c \<longrightarrow> priv_onopen c \<noteq> None) \<and>
      (isOnCloseSet c \<longrightarrow> priv_onclose c \<noteq> None) \<and>
      (handlers_ready c \<longrightarrow> cachedReceivedUpdates c = []) \<and>
      (hasConnBeenOpened c \<longrightarrow> cachedUpdatesToSend c = []))"

section \<open>Validation and encoding\<close>

lemma keys_map_of:
  "(k \<in> fst ` set fs) = (map_of fs k \<noteq> None)"
  "(k \<in> set (map fst fs)) = (map_of fs k \<noteq> None)"
  by (simp_all add: map_of_eq_None_iff)

lemmas ms_defs = createMethodString_def updateMethodString_def deleteMethodString_def

lemma isUpdateMessage_obj:
  "isUpdateMessage (JObj fs) =
     Inr (method_ok (JObj fs) \<and> ''id'' \<in> fst ` set fs \<and> ''item'' \<in> fst ` set fs)"
  unfolding isUpdateMessage_def method_ok_def ms_defs
  by (auto simp: keys_map_of simp del: set_map split: option.splits)

lemma isUpdateMessage_index_obj:
  "isUpdateMessage_index (JObj fs) =
     Inr (method_ok (JObj fs) \<and> ''id'' \<in> fst ` set fs \<and>
          typeof_is_string (js_get (JObj fs) ''id'') \<and> ''item'' \<in> fst ` set fs)"
  unfolding isUpdateMessage_index_def method_ok_def ms_defs
  by (auto simp: keys_map_of simp del: set_map split: option.splits)

lemma isUpdateMessage_True_obj:
  "isUpdateMessage m = Inr True \<Longrightarrow> \<exists>fs. m = JObj fs"
  by (cases m) (simp_all add: isUpdateMessage_def)

lemma valid_method_ok: "isUpdateMessage m = Inr True \<Longrightarrow> method_ok m"
  using isUpdateMessage_True_obj [of m] by (auto simp: isUpdateMessage_obj)

lemma processUpdate_valid:
  "method_ok m \<Longrightarrow> priv_oncreate c = Some hc \<Longrightarrow> priv_onupdate c = Some hu \<Longrightarrow>
   priv_ondelete c = Some hdl \<Longrightarrow> processUpdate c m = Inr [callback_for hc hu hdl m]"
  by (auto simp: processUpdate_def callback_for_def method_ok_def ms_defs)

text \<open>
  C4, as the code has it. The client with the gate accepts a parsed record if and only if
  its \<open>method\<close> is one of CREATE, UPDATE, DELETE and the keys \<open>id\<close> and \<open>item\<close> are
  present, whatever the type of the value of \<open>id\<close>; the validator of \<open>src/index.ts\<close>
  asks in addition that the value of \<open>id\<close> is a string. A rejected record leaves the
  client unchanged and calls nothing; an accepted one is appended to the cache while a
  mutation handler is missing, and is dispatched to exactly one callback otherwise.
\<close>

theorem validation_predicate:
  "isUpdateMessage (JObj fs) =
     Inr (method_ok (JObj fs) \<and> ''id'' \<in> fst ` set fs \<and> ''item'' \<in> fst ` set fs) \<and>
   isUpdateMessage_index (JObj fs) =
     Inr (method_ok (JObj fs) \<and> ''id'' \<in> fst ` set fs \<and>
          typeof_is_string (js_get (JObj fs) ''id'') \<and> ''item'' \<in> fst ` set fs) \<and>
   (isUpdateMessage (JObj fs) = Inr False \<longrightarrow>
      ws_onmessage (Json (JObj fs)) c = Returns [] c) \<and>
   (isUpdateMessage (JObj fs) = Inr True \<and> \<not> handlers_ready c \<longrightarrow>
      ws_onmessage (Json (JObj fs)) c =
        Returns [] (c\<lparr>cachedReceivedUpdates := cachedReceivedUpdates c @ [JObj fs]\<rparr>)) \<and>
   (isUpdateMessage (JObj fs) = Inr True \<and> handlers_ready c \<and> priv_oncreate c = Some hc \<and>
    priv_onupdate c = Some hu \<and> priv_ondelete c = Some hdl \<longrightarrow>
      ws_onmessage (Json (JObj fs)) c = Returns [callback_for hc hu hdl (JObj fs)] c)"
proof (intro conjI impI)
  show "isUpdateMessage (JObj fs) =
     Inr (method_ok (JObj fs) \<and> ''id'' \<in> fst ` set fs \<and> ''item'' \<in> fst ` set fs)"
    by (rule isUpdateMessage_obj)
  show "isUpdateMessage_index (JObj fs) =
     Inr (method_ok (JObj fs) \<and> ''id'' \<in> fst ` set fs \<and>
          typeof_is_string (js_get (JObj fs) ''id'') \<and> ''item'' \<in> fst ` set fs)"
    by (rule isUpdateMessage_index_obj)
next
  assume "isUpdateMessage (JObj fs) = Inr False"
  then show "ws_onmessage (Json (JObj fs)) c = Returns [] c"
    by (simp add: ws_onmessage_def)
next
  assume "isUpdateMessage (JObj fs) = Inr True \<and> \<not> handlers_ready c"
  then show "ws_onmessage (Json (JObj fs)) c =
      Returns [] (c\<lparr>cachedReceivedUpdates := cachedReceivedUpdates c @ [JObj fs]\<rparr>)"
    by (auto simp: ws_onmessage_def handlers_ready_def)
next
  assume a: "isUpdateMessage (JObj fs) = Inr True \<and> handlers_ready c \<and>
    priv_oncreate c = Some hc \<and> priv_onupdate c = Some hu \<and> priv_ondelete c = Some hdl"
  then have "processUpdate c (JObj fs) = Inr [callback_for hc hu hdl (JObj fs)]"
    by (simp add: processUpdate_valid valid_method_ok)
  with a show "ws_onmessage (Json (JObj fs)) c = Returns [callback_for hc hu hdl (JObj fs)] c"
    by (simp add: ws_onmessage_def handlers_ready_def)
qed

theorem validation_predicate_witness:
  "isUpdateMessage (JObj [(''method'', JStr ''PATCH''), (''id'', JStr ''7''), (''item'', JObj [])])
     = Inr False \<and>
   ws_onmessage (Json (JObj [(''method'', JStr ''PATCH''), (''id'', JStr ''7''), (''item'', JObj [])]))
     (fresh ''ws://localhost:8080/livegollection'')
     = Returns [] (fresh ''ws://localhost:8080/livegollection'') \<and>
   isUpdateMessage_index (JObj [(''method'', JStr ''PATCH''), (''id'', JStr ''7''), (''item'', JObj [])])
     = Inr False"
proof -
  let ?fs = "[(''method'', JStr ''PATCH''), (''id'', JStr ''7''), (''item'', JObj [])]"
  let ?c = "fresh ''ws://localhost:8080/livegollection''"
  note v = validation_predicate [of ?fs ?c 0 0 0]
  have r: "isUpdateMessage (JObj ?fs) = Inr False"
    using v [THEN conjunct1] by (simp add: method_ok_def)
  have i: "isUpdateMessage_index (JObj ?fs) = Inr False"
    using v [THEN conjunct2, THEN conjunct1] by (simp add: method_ok_def)
  have d: "ws_onmessage (Json (JObj ?fs)) ?c = Returns [] ?c"
    using v [THEN conjunct2, THEN conjunct2, THEN conjunct1] r by blast
  from r d i show ?thesis by blast
qed

text \<open>
  The claim as written fails on the client with the gate: a record whose \<open>id\<close> is the
  number 42 is accepted.
\<close>

theorem validation_predicate_counterexample:
  "isUpdateMessage (JObj [(''method'', JStr ''CREATE''), (''id'', JNum 42), (''item'', JObj [])])
     = Inr True \<and>
   \<not> typeof_is_string
        (js_get (JObj [(''method'', JStr ''CREATE''), (''id'', JNum 42), (''item'', JObj [])]) ''id'')"
  by (simp add: isUpdateMessage_def ms_defs)

text \<open>
  C5, as the code has it. For every item and every method the message built has the key
  \<open>id\<close> exactly when \<open>item.id\<close> is not undefined, and then \<open>id\<close> is that value (null
  included); \<open>method\<close> and \<open>item\<close> are always set. The two clients build the same
  message.
\<close>

theorem encode_id:
  "js_in ''id'' (updMess_of it m) = Inr (js_get (JObj it) ''id'' \<noteq> JUndefined) \<and>
   js_get (updMess_of it m) ''id'' = js_get (JObj it) ''id'' \<and>
   js_get (updMess_of it m) ''method'' = JStr (method_text m) \<and>
   js_get (updMess_of it m) ''item'' = JObj it \<and>
   craftUpdateMessage m it = updMess_of it m"
  by (auto simp: updMess_of_def craftUpdateMessage_def Let_def split: option.splits)

theorem encode_id_witness:
  "js_in ''id'' (updMess_of [(''fieldOne'', JStr ''x'')] CREATE) = Inr False \<and>
   js_get (updMess_of [(''id'', JStr ''42''), (''v'', JNum 1)] UPDATE) ''id'' = JStr ''42'' \<and>
   js_in ''id'' (updMess_of [(''id'', JStr ''42''), (''v'', JNum 1)] UPDATE) = Inr True"
  using encode_id [of "[(''fieldOne'', JStr ''x'')]" CREATE]
    encode_id [of "[(''id'', JStr ''42''), (''v'', JNum 1)]" UPDATE]
  by simp

text \<open>
  The claim as written fails for an identifier that is null: it is not undefined, so the
  message carries the key \<open>id\<close> with the value null.
\<close>

theorem encode_id_counterexample:
  "js_get (JObj [(''id'', JNull)]) ''id'' = JNull \<and>
   updMess_of [(''id'', JNull)] CREATE =
     JObj [(''method'', JStr ''CREATE''), (''item'', JObj [(''id'', JNull)]), (''id'', JNull)] \<and>
   js_in ''id'' (updMess_of [(''id'', JNull)] CREATE) = Inr True"
  by (simp add: updMess_of_def)

text \<open>
  C6, as the code has it. A payload that is not a valid update message never changes the
  client and never calls a handler. When it parses to an object or an array it is dropped
  silently: the message handler returns. When the text is not JSON the message handler
  does not return: it leaves with the SyntaxError of the parser, which nothing in the
  class catches.
\<close>

theorem invalid_payload:
  "received_of (WsMessage d) = [] \<Longrightarrow>
   effects_of (ws_onmessage d c) = [] \<and>
   client_of (ws_onmessage d c) = c \<and>
   (d = NotJson \<longrightarrow> ws_onmessage d c = Throws SyntaxError [] c) \<and>
   ((\<exists>fs. d = Json (JObj fs)) \<or> (\<exists>xs. d = Json (JArr xs)) \<longrightarrow>
      ws_onmessage d c = Returns [] c)"
proof (cases d)
  case NotJson
  then show ?thesis by (simp add: ws_onmessage_def)
next
  case (Json v)
  assume a: "received_of (WsMessage d) = []"
  show ?thesis
  proof (cases v)
    case (JObj fs)
    from a Json JObj have "isUpdateMessage (JObj fs) \<noteq> Inr True"
      by (auto split: if_splits)
    moreover have "\<exists>b. isUpdateMessage (JObj fs) = Inr b"
      by (simp add: isUpdateMessage_obj)
    ultimately have "isUpdateMessage (JObj fs) = Inr False"
      by auto
    with Json JObj show ?thesis
      by (simp add: ws_onmessage_def)
  qed (simp_all add: Json ws_onmessage_def isUpdateMessage_def)
qed

theorem invalid_payload_witness:
  "received_of (WsMessage (Json (JObj [(''method'', JStr ''CREATE''), (''item'', JObj [])]))) = [] \<and>
   ws_onmessage (Json (JObj [(''method'', JStr ''CREATE''), (''item'', JObj [])]))
     (fresh ''ws://localhost:8080/livegollection'')
     = Returns [] (fresh ''ws://localhost:8080/livegollection'') \<and>
   received_of (WsMessage NotJson) = [] \<and>
   effects_of (ws_onmessage NotJson (fresh ''ws://localhost:8080/livegollection'')) = [] \<and>
   client_of (ws_onmessage NotJson (fresh ''ws://localhost:8080/livegollection''))
     = fresh ''ws://localhost:8080/livegollection''"
proof -
  let ?fs = "[(''method'', JStr ''CREATE''), (''item'', JObj [])]"
  let ?c = "fresh ''ws://localhost:8080/livegollection''"
  have h: "received_of (WsMessage (Json (JObj ?fs))) = []"
    by (simp add: isUpdateMessage_def ms_defs)
  have s: "(\<exists>fs. Json (JObj ?fs) = Json (JObj fs)) \<or> (\<exists>xs. Json (JObj ?fs) = Json (JArr xs))"
    by simp
  from invalid_payload [OF h, of ?c] s
  have a: "ws_onmessage (Json (JObj ?fs)) ?c = Returns [] ?c"
    by blast
  have n: "received_of (WsMessage NotJson) = []"
    by simp
  from invalid_payload [OF n, of ?c]
  have b: "effects_of (ws_onmessage NotJson ?c) = []" "client_of (ws_onmessage NotJson ?c) = ?c"
    by blast+
  from h a n b show ?thesis by blast
qed

text \<open>
  The claim as written fails: on a text that is not JSON the message handler leaves with
  a SyntaxError instead of returning.
\<close>

theorem invalid_payload_counterexample:
  "received_of (WsMessage NotJson) = [] \<and>
   ws_onmessage NotJson (fresh ''ws://localhost:8080/livegollection'')
     = Throws SyntaxError [] (fresh ''ws://localhost:8080/livegollection'') \<and>
   \<not> returns (ws_onmessage NotJson (fresh ''ws://localhost:8080/livegollection''))"
  by (simp add: ws_onmessage_def)

section \<open>What every reachable client satisfies\<close>


lemma wired_fresh: "wired (fresh u)"
  by (simp add: wired_def fresh_def constructor_def handlers_ready_def)

lemma forEach_total:
  "priv_oncreate c \<noteq> None \<Longrightarrow> priv_onupdate c \<noteq> None \<Longrightarrow> priv_ondelete c \<noteq> None \<Longrightarrow>
   snd (forEach_processUpdate c ms) = None"
  by (induction ms) (auto simp: processUpdate_def split: prod.splits)

lemma forEach_calls:
  "x \<in> set (fst (forEach_processUpdate c ms)) \<Longrightarrow> is_mutation_call x"
  by (induction ms) (auto simp: processUpdate_def split: prod.splits option.splits if_splits)

lemma processUpdate_ready:
  "priv_oncreate c \<noteq> None \<Longrightarrow> priv_onupdate c \<noteq> None \<Longrightarrow> priv_ondelete c \<noteq> None \<Longrightarrow>
   \<exists>effs. processUpdate c m = Inr effs"
  by (auto simp: processUpdate_def)

lemma wired_ws_onopen: "wired c \<Longrightarrow> wired (client_of (ws_onopen c))"
  by (auto simp: wired_def handlers_ready_def ws_onopen_def Let_def split: option.splits)

lemma wired_ws_onclose: "wired c \<Longrightarrow> wired (client_of (ws_onclose c))"
  by (auto simp: wired_def handlers_ready_def ws_onclose_def Let_def split: option.splits)

lemma wired_ws_onmessage: "wired c \<Longrightarrow> wired (client_of (ws_onmessage d c))"
  by (simp add: wired_def handlers_ready_def ws_onmessage_def split: sum.splits)

lemma wired_craft: "wired c \<Longrightarrow> wired (client_of (craftAndSendUpdateMessage it m c))"
  by (simp add: wired_def handlers_ready_def craftAndSendUpdateMessage_def Let_def)

lemma wired_set_onopen: "wired c \<Longrightarrow> wired (client_of (set_onopen h c))"
  by (simp add: wired_def handlers_ready_def set_onopen_def Let_def)

lemma wired_set_onclose: "wired c \<Longrightarrow> wired (client_of (set_onclose h c))"
  by (simp add: wired_def handlers_ready_def set_onclose_def Let_def)


lemma wired_set_oncreate: "wired c \<Longrightarrow> wired (client_of (set_oncreate h c))"
  by (auto simp: wired_def handlers_ready_def set_oncreate_def Let_def split: prod.splits option.splits)


lemma wired_set_onupdate: "wired c \<Longrightarrow> wired (client_of (set_onupdate h c))"
  by (auto simp: wired_def handlers_ready_def set_onupdate_def Let_def split: prod.splits option.splits)

lemma wired_set_ondelete: "wired c \<Longrightarrow> wired (client_of (set_ondelete h c))"
  by (auto simp: wired_def handlers_ready_def set_ondelete_def Let_def split: prod.splits option.splits)

lemma wired_step: "wired c \<Longrightarrow> wired (client_of (step e c))"
  by (cases e)
    (simp_all add: wired_ws_onopen wired_ws_onclose wired_ws_onmessage wired_craft
      wired_set_onopen wired_set_onclose wired_set_oncreate wired_set_onupdate
      wired_set_ondelete create_def update_def delete_def)

lemma wired_run: "wired c \<Longrightarrow> run es c = (tr, c') \<Longrightarrow> wired c'"
proof (induction es arbitrary: c tr)
  case Nil
  then show ?case by simp
next
  case (Cons e es)
  obtain tr1 where "run es (client_of (step e c)) = (tr1, c')"
    using Cons.prems(2) by (auto split: prod.splits)
  with Cons.IH [OF wired_step [OF Cons.prems(1)]] show ?case by blast
qed

text \<open>A flag that is set stays set.\<close>

lemma step_flags:
  "isOnCreateSet c \<Longrightarrow> isOnCreateSet (client_of (step e c))"
  "isOnUpdateSet c \<Longrightarrow> isOnUpdateSet (client_of (step e c))"
  "isOnDeleteSet c \<Longrightarrow> isOnDeleteSet (client_of (step e c))"
  "isOnOpenSet c \<Longrightarrow> isOnOpenSet (client_of (step e c))"
  "isOnCloseSet c \<Longrightarrow> isOnCloseSet (client_of (step e c))"
  "hasConnBeenOpened c \<Longrightarrow> hasConnBeenOpened (client_of (step e c))"
  "hasConnBeenClosed c \<Longrightarrow> hasConnBeenClosed (client_of (step e c))"
  by (cases e; simp add: ws_onopen_def ws_onclose_def ws_onmessage_def create_def update_def
      delete_def craftAndSendUpdateMessage_def set_oncreate_def set_onupdate_def set_ondelete_def
      set_onopen_def set_onclose_def Let_def split: option.splits sum.splits prod.splits)+

lemma step_ready: "handlers_ready c \<Longrightarrow> handlers_ready (client_of (step e c))"
  by (simp add: handlers_ready_def step_flags)

lemma run_ready: "handlers_ready c \<Longrightarrow> run es c = (tr, c') \<Longrightarrow> handlers_ready c'"
proof (induction es arbitrary: c tr)
  case Nil
  then show ?case by simp
next
  case (Cons e es)
  obtain tr1 where "run es (client_of (step e c)) = (tr1, c')"
    using Cons.prems(2) by (auto split: prod.splits)
  with Cons.IH [OF step_ready [OF Cons.prems(1)]] show ?case by blast
qed


section \<open>The gate on inbound messages\<close>


lemma set_oncreate_drain:
  assumes "wired c" "\<not> isOnCreateSet c" "isOnUpdateSet c" "isOnDeleteSet c"
  shows "set_oncreate h c =
    Returns (fst (forEach_processUpdate (c\<lparr>priv_oncreate := Some h\<rparr>) (cachedReceivedUpdates c)))
      (c\<lparr>priv_oncreate := Some h, cachedReceivedUpdates := [], isOnCreateSet := True\<rparr>)"
proof -
  let ?c1 = "c\<lparr>priv_oncreate := Some h\<rparr>"
  from assms have "snd (forEach_processUpdate ?c1 (cachedReceivedUpdates c)) = None"
    by (intro forEach_total) (auto simp: wired_def)
  with assms show ?thesis
    by (cases "forEach_processUpdate ?c1 (cachedReceivedUpdates c)") (simp add: set_oncreate_def)
qed

lemma set_onupdate_drain:
  assumes "wired c" "isOnCreateSet c" "\<not> isOnUpdateSet c" "isOnDeleteSet c"
  shows "set_onupdate h c =
    Returns (fst (forEach_processUpdate (c\<lparr>priv_onupdate := Some h\<rparr>) (cachedReceivedUpdates c)))
      (c\<lparr>priv_onupdate := Some h, cachedReceivedUpdates := [], isOnUpdateSet := True\<rparr>)"
proof -
  let ?c1 = "c\<lparr>priv_onupdate := Some h\<rparr>"
  from assms have "snd (forEach_processUpdate ?c1 (cachedReceivedUpdates c)) = None"
    by (intro forEach_total) (auto simp: wired_def)
  with assms show ?thesis
    by (cases "forEach_processUpdate ?c1 (cachedReceivedUpdates c)") (simp add: set_onupdate_def)
qed

lemma set_ondelete_drain:
  assumes "wired c" "isOnCreateSet c" "isOnUpdateSet c" "\<not> isOnDeleteSet c"
  shows "set_ondelete h c =
    Returns (fst (forEach_processUpdate (c\<lparr>priv_ondelete := Some h\<rparr>) (cachedReceivedUpdates c)))
      (c\<lparr>priv_ondelete := Some h, cachedReceivedUpdates := [], isOnDeleteSet := True\<rparr>)"
proof -
  let ?c1 = "c\<lparr>priv_ondelete := Some h\<rparr>"
  from assms have "snd (forEach_processUpdate ?c1 (cachedReceivedUpdates c)) = None"
    by (intro forEach_total) (auto simp: wired_def)
  with assms show ?thesis
    by (cases "forEach_processUpdate ?c1 (cachedReceivedUpdates c)") (simp add: set_ondelete_def)
qed

lemma set_oncreate_plain:
  "\<not> (\<not> isOnCreateSet c \<and> isOnUpdateSet c \<and> isOnDeleteSet c) \<Longrightarrow>
   set_oncreate h c = Returns [] (c\<lparr>priv_oncreate := Some h, isOnCreateSet := True\<rparr>)"
  by (auto simp: set_oncreate_def)

lemma set_onupdate_plain:
  "\<not> (isOnCreateSet c \<and> \<not> isOnUpdateSet c \<and> isOnDeleteSet c) \<Longrightarrow>
   set_onupdate h c = Returns [] (c\<lparr>priv_onupdate := Some h, isOnUpdateSet := True\<rparr>)"
  by (auto simp: set_onupdate_def)

lemma set_ondelete_plain:
  "\<not> (isOnCreateSet c \<and> isOnUpdateSet c \<and> \<not> isOnDeleteSet c) \<Longrightarrow>
   set_ondelete h c = Returns [] (c\<lparr>priv_ondelete := Some h, isOnDeleteSet := True\<rparr>)"
  by (auto simp: set_ondelete_def)

lemma no_calls_in_sends [simp]: "filter is_mutation_call (map WsSend ms) = []"
  by (induction ms) simp_all

lemma gate_set_oncreate:
  assumes "wired c" "\<not> handlers_ready (client_of (set_oncreate h c))"
  shows "set_oncreate h c = Returns [] (c\<lparr>priv_oncreate := Some h, isOnCreateSet := True\<rparr>)"
proof (cases "\<not> isOnCreateSet c \<and> isOnUpdateSet c \<and> isOnDeleteSet c")
  case True
  with assms(1) have "handlers_ready (client_of (set_oncreate h c))"
    by (simp add: set_oncreate_drain handlers_ready_def)
  with assms(2) show ?thesis by simp
next
  case False
  then show ?thesis by (rule set_oncreate_plain)
qed

lemma gate_set_onupdate:
  assumes "wired c" "\<not> handlers_ready (client_of (set_onupdate h c))"
  shows "set_onupdate h c = Returns [] (c\<lparr>priv_onupdate := Some h, isOnUpdateSet := True\<rparr>)"
proof (cases "isOnCreateSet c \<and> \<not> isOnUpdateSet c \<and> isOnDeleteSet c")
  case True
  with assms(1) have "handlers_ready (client_of (set_onupdate h c))"
    by (simp add: set_onupdate_drain handlers_ready_def)
  with assms(2) show ?thesis by simp
next
  case False
  then show ?thesis by (rule set_onupdate_plain)
qed

lemma gate_set_ondelete:
  assumes "wired c" "\<not> handlers_ready (client_of (set_ondelete h c))"
  shows "set_ondelete h c = Returns [] (c\<lparr>priv_ondelete := Some h, isOnDeleteSet := True\<rparr>)"
proof (cases "isOnCreateSet c \<and> isOnUpdateSet c \<and> \<not> isOnDeleteSet c")
  case True
  with assms(1) have "handlers_ready (client_of (set_ondelete h c))"
    by (simp add: set_ondelete_drain handlers_ready_def)
  with assms(2) show ?thesis by simp
next
  case False
  then show ?thesis by (rule set_ondelete_plain)
qed

lemma gate_ws_onmessage:
  assumes "\<not> handlers_ready c"
  shows "filter is_mutation_call (observed (ws_onmessage d c)) = [] \<and>
    cachedReceivedUpdates (client_of (ws_onmessage d c)) =
      cachedReceivedUpdates c @ received_of (WsMessage d)"
proof (cases "JSON_parse d")
  case (Inl e)
  then show ?thesis by (simp add: ws_onmessage_def)
next
  case (Inr m)
  show ?thesis
  proof (cases "isUpdateMessage m")
    case (Inl e)
    with Inr show ?thesis by (simp add: ws_onmessage_def)
  next
    case (Inr b)
    with \<open>JSON_parse d = Inr m\<close> assms show ?thesis
      by (cases b) (auto simp: ws_onmessage_def handlers_ready_def)
  qed
qed

lemma step_gate:
  assumes "wired c" "\<not> handlers_ready (client_of (step e c))"
  shows "filter is_mutation_call (observed (step e c)) = [] \<and>
    cachedReceivedUpdates (client_of (step e c)) = cachedReceivedUpdates c @ received_of e"
proof (cases e)
  case (WsMessage d)
  from assms(2) have "\<not> handlers_ready c"
    using step_ready [of c e] by blast
  with WsMessage show ?thesis by (simp add: gate_ws_onmessage)
next
  case (SetOnCreate h)
  with assms have "set_oncreate h c = Returns [] (c\<lparr>priv_oncreate := Some h, isOnCreateSet := True\<rparr>)"
    by (intro gate_set_oncreate) simp_all
  with SetOnCreate show ?thesis by simp
next
  case (SetOnUpdate h)
  with assms have "set_onupdate h c = Returns [] (c\<lparr>priv_onupdate := Some h, isOnUpdateSet := True\<rparr>)"
    by (intro gate_set_onupdate) simp_all
  with SetOnUpdate show ?thesis by simp
next
  case (SetOnDelete h)
  with assms have "set_ondelete h c = Returns [] (c\<lparr>priv_ondelete := Some h, isOnDeleteSet := True\<rparr>)"
    by (intro gate_set_ondelete) simp_all
  with SetOnDelete show ?thesis by simp
qed (simp_all add: ws_onopen_def ws_onclose_def create_def update_def delete_def
      craftAndSendUpdateMessage_def set_onopen_def set_onclose_def Let_def split: option.splits)

lemma run_gate:
  "wired c \<Longrightarrow> run es c = (tr, c') \<Longrightarrow> \<not> handlers_ready c' \<Longrightarrow>
   filter is_mutation_call tr = [] \<and>
   cachedReceivedUpdates c' = cachedReceivedUpdates c @ received es"
proof (induction es arbitrary: c tr)
  case Nil
  then show ?case by (simp add: received_def)
next
  case (Cons e es)
  let ?c1 = "client_of (step e c)"
  obtain tr1 where r: "run es ?c1 = (tr1, c')" and tr: "tr = observed (step e c) @ tr1"
    using Cons.prems(2) by (auto split: prod.splits)
  have n1: "\<not> handlers_ready ?c1"
    using run_ready [OF _ r] Cons.prems(3) by blast
  from step_gate [OF Cons.prems(1) n1] Cons.IH [OF wired_step [OF Cons.prems(1)] r Cons.prems(3)] tr
  show ?case by (simp add: received_def)
qed




lemma received_valid: "m \<in> set (received es) \<Longrightarrow> isUpdateMessage m = Inr True"
proof (induction es)
  case Nil
  then show ?case by (simp add: received_def)
next
  case (Cons e es)
  then show ?case
    by (cases e) (auto simp: received_def split: sum.splits if_splits)
qed

lemma forEach_valid:
  assumes "priv_oncreate c = Some hc" "priv_onupdate c = Some hu" "priv_ondelete c = Some hdl"
  shows "(\<And>m. m \<in> set ms \<Longrightarrow> method_ok m) \<Longrightarrow>
    forEach_processUpdate c ms = (map (callback_for hc hu hdl) ms, None)"
proof (induction ms)
  case Nil
  then show ?case by simp
next
  case (Cons m ms)
  have "processUpdate c m = Inr [callback_for hc hu hdl m]"
    using assms Cons.prems by (simp add: processUpdate_valid)
  moreover have "forEach_processUpdate c ms = (map (callback_for hc hu hdl) ms, None)"
    using Cons by simp
  ultimately show ?case by simp
qed

lemma drain_all:
  assumes w: "wired c" and v: "\<And>m. m \<in> set (cachedReceivedUpdates c) \<Longrightarrow> method_ok m"
    and e: "(e = SetOnCreate h \<and> \<not> isOnCreateSet c \<and> isOnUpdateSet c \<and> isOnDeleteSet c) \<or>
         (e = SetOnUpdate h \<and> isOnCreateSet c \<and> \<not> isOnUpdateSet c \<and> isOnDeleteSet c) \<or>
         (e = SetOnDelete h \<and> isOnCreateSet c \<and> isOnUpdateSet c \<and> \<not> isOnDeleteSet c)"
  shows "\<exists>hc hu hdl c'.
    step e c = Returns (map (callback_for hc hu hdl) (cachedReceivedUpdates c)) c' \<and>
    Some hc = (if e = SetOnCreate h then Some h else priv_oncreate c) \<and>
    Some hu = (if e = SetOnUpdate h then Some h else priv_onupdate c) \<and>
    Some hdl = (if e = SetOnDelete h then Some h else priv_ondelete c) \<and>
    priv_oncreate c' = Some hc \<and> priv_onupdate c' = Some hu \<and> priv_ondelete c' = Some hdl \<and>
    cachedReceivedUpdates c' = [] \<and> handlers_ready c'"
proof -
  from e consider
    (cr) "e = SetOnCreate h" "\<not> isOnCreateSet c" "isOnUpdateSet c" "isOnDeleteSet c"
  | (up) "e = SetOnUpdate h" "isOnCreateSet c" "\<not> isOnUpdateSet c" "isOnDeleteSet c"
  | (de) "e = SetOnDelete h" "isOnCreateSet c" "isOnUpdateSet c" "\<not> isOnDeleteSet c"
    by blast
  then show ?thesis
  proof cases
    case cr
    from w cr obtain hu hdl where h: "priv_onupdate c = Some hu" "priv_ondelete c = Some hdl"
      by (auto simp: wired_def)
    let ?c1 = "c\<lparr>priv_oncreate := Some h\<rparr>"
    have "forEach_processUpdate ?c1 (cachedReceivedUpdates c) =
        (map (callback_for h hu hdl) (cachedReceivedUpdates c), None)"
      using h v by (intro forEach_valid) simp_all
    with set_oncreate_drain [OF w cr(2-4), of h] cr(1) h show ?thesis
      by (simp add: handlers_ready_def cr)
  next
    case up
    from w up obtain hc hdl where h: "priv_oncreate c = Some hc" "priv_ondelete c = Some hdl"
      by (auto simp: wired_def)
    let ?c1 = "c\<lparr>priv_onupdate := Some h\<rparr>"
    have "forEach_processUpdate ?c1 (cachedReceivedUpdates c) =
        (map (callback_for hc h hdl) (cachedReceivedUpdates c), None)"
      using h v by (intro forEach_valid) simp_all
    with set_onupdate_drain [OF w up(2-4), of h] up(1) h show ?thesis
      by (simp add: handlers_ready_def up)
  next
    case de
    from w de obtain hc hu where h: "priv_oncreate c = Some hc" "priv_onupdate c = Some hu"
      by (auto simp: wired_def)
    let ?c1 = "c\<lparr>priv_ondelete := Some h\<rparr>"
    have "forEach_processUpdate ?c1 (cachedReceivedUpdates c) =
        (map (callback_for hc hu h) (cachedReceivedUpdates c), None)"
      using h v by (intro forEach_valid) simp_all
    with set_ondelete_drain [OF w de(2-4), of h] de(1) h show ?thesis
      by (simp add: handlers_ready_def de)
  qed
qed

lemma fresh_cache: "cachedReceivedUpdates (fresh u) = []" "cachedUpdatesToSend (fresh u) = []"
  "\<not> hasConnBeenOpened (fresh u)" "\<not> hasConnBeenClosed (fresh u)"
  by (simp_all add: fresh_def constructor_def)

text \<open>
  C2. Take any run from the constructor and, in the state it ends in, the registration of
  the last missing mutation handler: the handler whose flag is unset while the other two
  flags are set. No mutation callback was invoked before; the cache holds exactly the
  valid messages received, in arrival order; the registration returns having invoked, for
  each of them once and in that order, the callback its method names, with its item (the
  handler just registered for its own method, the handlers registered earlier for the
  other two); and afterwards the cache is empty and the three flags are set.
\<close>

theorem buffer_then_drain:
  assumes "run es (fresh u) = (tr, c)"
    and "(e = SetOnCreate h \<and> \<not> isOnCreateSet c \<and> isOnUpdateSet c \<and> isOnDeleteSet c) \<or>
         (e = SetOnUpdate h \<and> isOnCreateSet c \<and> \<not> isOnUpdateSet c \<and> isOnDeleteSet c) \<or>
         (e = SetOnDelete h \<and> isOnCreateSet c \<and> isOnUpdateSet c \<and> \<not> isOnDeleteSet c)"
  shows "filter is_mutation_call tr = [] \<and>
    cachedReceivedUpdates c = received es \<and>
    (\<exists>hc hu hdl c'.
       step e c = Returns (map (callback_for hc hu hdl) (received es)) c' \<and>
       Some hc = (if e = SetOnCreate h then Some h else priv_oncreate c) \<and>
       Some hu = (if e = SetOnUpdate h then Some h else priv_onupdate c) \<and>
       Some hdl = (if e = SetOnDelete h then Some h else priv_ondelete c) \<and>
       priv_oncreate c' = Some hc \<and> priv_onupdate c' = Some hu \<and> priv_ondelete c' = Some hdl \<and>
       cachedReceivedUpdates c' = [] \<and> handlers_ready c')"
proof -
  have w: "wired c" using wired_run [OF wired_fresh assms(1)] .
  from assms(2) have n: "\<not> handlers_ready c"
    by (auto simp: handlers_ready_def)
  from run_gate [OF wired_fresh assms(1) n]
  have g: "filter is_mutation_call tr = []" "cachedReceivedUpdates c = received es"
    by (simp_all add: fresh_cache)
  have v: "\<And>m. m \<in> set (cachedReceivedUpdates c) \<Longrightarrow> method_ok m"
    using g(2) received_valid valid_method_ok by simp
  from drain_all [OF w v assms(2)] g show ?thesis by simp
qed

text \<open>
  C1. In every run from the constructor: as long as one of the create, update and delete
  handlers is unset, no mutation callback has been invoked; if one has been invoked, the
  three flags are set and the three handlers assigned; and a valid message that arrives
  while one is unset is appended to the cache without any callback.
\<close>

theorem gate_completeness:
  assumes "run es (fresh u) = (tr, c)"
  shows "(\<not> handlers_ready c \<longrightarrow> filter is_mutation_call tr = []) \<and>
    (filter is_mutation_call tr \<noteq> [] \<longrightarrow>
       handlers_ready c \<and> priv_oncreate c \<noteq> None \<and> priv_onupdate c \<noteq> None \<and>
       priv_ondelete c \<noteq> None) \<and>
    (\<not> handlers_ready c \<and> isUpdateMessage m = Inr True \<longrightarrow>
       step (WsMessage (Json m)) c =
         Returns [] (c\<lparr>cachedReceivedUpdates := cachedReceivedUpdates c @ [m]\<rparr>))"
proof -
  have w: "wired c" using wired_run [OF wired_fresh assms] .
  have a: "\<not> handlers_ready c \<longrightarrow> filter is_mutation_call tr = []"
    using run_gate [OF wired_fresh assms] by blast
  have b: "filter is_mutation_call tr \<noteq> [] \<longrightarrow>
       handlers_ready c \<and> priv_oncreate c \<noteq> None \<and> priv_onupdate c \<noteq> None \<and>
       priv_ondelete c \<noteq> None"
    using a w by (auto simp: wired_def handlers_ready_def)
  have c: "\<not> handlers_ready c \<and> isUpdateMessage m = Inr True \<longrightarrow>
       step (WsMessage (Json m)) c =
         Returns [] (c\<lparr>cachedReceivedUpdates := cachedReceivedUpdates c @ [m]\<rparr>)"
    by (auto simp: ws_onmessage_def handlers_ready_def)
  from a b c show ?thesis by blast
qed




lemmas run_defs = fresh_def constructor_def ws_onopen_def ws_onclose_def ws_onmessage_def
  create_def update_def delete_def craftAndSendUpdateMessage_def updMess_of_def
  set_oncreate_def set_onupdate_def set_ondelete_def set_onopen_def set_onclose_def
  isUpdateMessage_def processUpdate_def ms_defs handlers_ready_def Let_def

theorem buffer_then_drain_witness:
  "effects_of (step (SetOnDelete 3)
     (snd (run [WsMessage (Json (JObj [(''method'', JStr ''UPDATE''), (''id'', JStr ''42''),
                                       (''item'', JObj [(''id'', JStr ''42''), (''v'', JNum 1)])])),
                SetOnCreate 1,
                WsMessage (Json (JObj [(''method'', JStr ''CREATE''), (''id'', JStr ''43''),
                                       (''item'', JObj [(''id'', JStr ''43'')])])),
                SetOnUpdate 2]
             (fresh ''ws://localhost:8080/livegollection''))))
     = [CallOnUpdate 2 (JObj [(''id'', JStr ''42''), (''v'', JNum 1)]),
        CallOnCreate 1 (JObj [(''id'', JStr ''43'')])] \<and>
   effects_of (step (SetOnCreate 1)
     (snd (run [WsMessage (Json (JObj [(''method'', JStr ''UPDATE''), (''id'', JStr ''42''),
                                       (''item'', JObj [(''id'', JStr ''42''), (''v'', JNum 1)])])),
                SetOnDelete 3,
                WsMessage (Json (JObj [(''method'', JStr ''CREATE''), (''id'', JStr ''43''),
                                       (''item'', JObj [(''id'', JStr ''43'')])])),
                SetOnUpdate 2]
             (fresh ''ws://localhost:8080/livegollection''))))
     = [CallOnUpdate 2 (JObj [(''id'', JStr ''42''), (''v'', JNum 1)]),
        CallOnCreate 1 (JObj [(''id'', JStr ''43'')])] \<and>
   effects_of (step (SetOnUpdate 2)
     (snd (run [WsMessage (Json (JObj [(''method'', JStr ''UPDATE''), (''id'', JStr ''42''),
                                       (''item'', JObj [(''id'', JStr ''42''), (''v'', JNum 1)])])),
                SetOnDelete 3,
                WsMessage (Json (JObj [(''method'', JStr ''CREATE''), (''id'', JStr ''43''),
                                       (''item'', JObj [(''id'', JStr ''43'')])])),
                SetOnCreate 1]
             (fresh ''ws://localhost:8080/livegollection''))))
     = [CallOnUpdate 2 (JObj [(''id'', JStr ''42''), (''v'', JNum 1)]),
        CallOnCreate 1 (JObj [(''id'', JStr ''43'')])]"
proof -
  let ?m1 = "JObj [(''method'', JStr ''UPDATE''), (''id'', JStr ''42''),
                   (''item'', JObj [(''id'', JStr ''42''), (''v'', JNum 1)])]"
  let ?m2 = "JObj [(''method'', JStr ''CREATE''), (''id'', JStr ''43''),
                   (''item'', JObj [(''id'', JStr ''43'')])]"
  let ?f = "fresh ''ws://localhost:8080/livegollection''"
  let ?calls = "[CallOnUpdate 2 (JObj [(''id'', JStr ''42''), (''v'', JNum 1)]),
                 CallOnCreate 1 (JObj [(''id'', JStr ''43'')])]"
  have by_delete: "effects_of (step (SetOnDelete 3)
      (snd (run [WsMessage (Json ?m1), SetOnCreate 1, WsMessage (Json ?m2), SetOnUpdate 2] ?f)))
      = ?calls"
  proof -
    let ?es = "[WsMessage (Json ?m1), SetOnCreate 1, WsMessage (Json ?m2), SetOnUpdate 2]"
    let ?r = "run ?es ?f"
    have r: "?r = (fst ?r, snd ?r)"
      by simp
    have p: "isOnCreateSet (snd ?r)" "isOnUpdateSet (snd ?r)" "\<not> isOnDeleteSet (snd ?r)"
      "priv_oncreate (snd ?r) = Some 1" "priv_onupdate (snd ?r) = Some 2"
      by (simp_all add: run_defs)
    have rc: "received ?es = [?m1, ?m2]"
      by (simp add: received_def isUpdateMessage_def ms_defs)
    from p have l: "(SetOnDelete 3 = SetOnCreate 3 \<and> \<not> isOnCreateSet (snd ?r) \<and>
          isOnUpdateSet (snd ?r) \<and> isOnDeleteSet (snd ?r)) \<or>
        (SetOnDelete 3 = SetOnUpdate 3 \<and> isOnCreateSet (snd ?r) \<and>
          \<not> isOnUpdateSet (snd ?r) \<and> isOnDeleteSet (snd ?r)) \<or>
        (SetOnDelete 3 = SetOnDelete 3 \<and> isOnCreateSet (snd ?r) \<and>
          isOnUpdateSet (snd ?r) \<and> \<not> isOnDeleteSet (snd ?r))"
      by blast
    from buffer_then_drain [OF r l] obtain hc hu hdl c' where
      s: "step (SetOnDelete 3) (snd ?r) = Returns (map (callback_for hc hu hdl) (received ?es)) c'"
      and h: "Some hc = (if SetOnDelete 3 = SetOnCreate 3 then Some 3 else priv_oncreate (snd ?r))"
        "Some hu = (if SetOnDelete 3 = SetOnUpdate 3 then Some 3 else priv_onupdate (snd ?r))"
      by blast
    from h p have "hc = 1" "hu = 2"
      by simp_all
    with s rc show ?thesis
      by (simp add: callback_for_def)
  qed
  have by_create: "effects_of (step (SetOnCreate 1)
      (snd (run [WsMessage (Json ?m1), SetOnDelete 3, WsMessage (Json ?m2), SetOnUpdate 2] ?f)))
      = ?calls"
  proof -
    let ?es = "[WsMessage (Json ?m1), SetOnDelete 3, WsMessage (Json ?m2), SetOnUpdate 2]"
    let ?r = "run ?es ?f"
    have r: "?r = (fst ?r, snd ?r)"
      by simp
    have p: "\<not> isOnCreateSet (snd ?r)" "isOnUpdateSet (snd ?r)" "isOnDeleteSet (snd ?r)"
      "priv_onupdate (snd ?r) = Some 2"
      by (simp_all add: run_defs)
    have rc: "received ?es = [?m1, ?m2]"
      by (simp add: received_def isUpdateMessage_def ms_defs)
    from p have l: "(SetOnCreate 1 = SetOnCreate 1 \<and> \<not> isOnCreateSet (snd ?r) \<and>
          isOnUpdateSet (snd ?r) \<and> isOnDeleteSet (snd ?r)) \<or>
        (SetOnCreate 1 = SetOnUpdate 1 \<and> isOnCreateSet (snd ?r) \<and>
          \<not> isOnUpdateSet (snd ?r) \<and> isOnDeleteSet (snd ?r)) \<or>
        (SetOnCreate 1 = SetOnDelete 1 \<and> isOnCreateSet (snd ?r) \<and>
          isOnUpdateSet (snd ?r) \<and> \<not> isOnDeleteSet (snd ?r))"
      by blast
    from buffer_then_drain [OF r l] obtain hc hu hdl c' where
      s: "step (SetOnCreate 1) (snd ?r) = Returns (map (callback_for hc hu hdl) (received ?es)) c'"
      and h: "Some hc = (if SetOnCreate 1 = SetOnCreate 1 then Some 1 else priv_oncreate (snd ?r))"
        "Some hu = (if SetOnCreate 1 = SetOnUpdate 1 then Some 1 else priv_onupdate (snd ?r))"
      by blast
    from h p have "hc = 1" "hu = 2"
      by simp_all
    with s rc show ?thesis
      by (simp add: callback_for_def)
  qed
  have by_update: "effects_of (step (SetOnUpdate 2)
      (snd (run [WsMessage (Json ?m1), SetOnDelete 3, WsMessage (Json ?m2), SetOnCreate 1] ?f)))
      = ?calls"
  proof -
    let ?es = "[WsMessage (Json ?m1), SetOnDelete 3, WsMessage (Json ?m2), SetOnCreate 1]"
    let ?r = "run ?es ?f"
    have r: "?r = (fst ?r, snd ?r)"
      by simp
    have p: "isOnCreateSet (snd ?r)" "\<not> isOnUpdateSet (snd ?r)" "isOnDeleteSet (snd ?r)"
      "priv_oncreate (snd ?r) = Some 1"
      by (simp_all add: run_defs)
    have rc: "received ?es = [?m1, ?m2]"
      by (simp add: received_def isUpdateMessage_def ms_defs)
    from p have l: "(SetOnUpdate 2 = SetOnCreate 2 \<and> \<not> isOnCreateSet (snd ?r) \<and>
          isOnUpdateSet (snd ?r) \<and> isOnDeleteSet (snd ?r)) \<or>
        (SetOnUpdate 2 = SetOnUpdate 2 \<and> isOnCreateSet (snd ?r) \<and>
          \<not> isOnUpdateSet (snd ?r) \<and> isOnDeleteSet (snd ?r)) \<or>
        (SetOnUpdate 2 = SetOnDelete 2 \<and> isOnCreateSet (snd ?r) \<and>
          isOnUpdateSet (snd ?r) \<and> \<not> isOnDeleteSet (snd ?r))"
      by blast
    from buffer_then_drain [OF r l] obtain hc hu hdl c' where
      s: "step (SetOnUpdate 2) (snd ?r) = Returns (map (callback_for hc hu hdl) (received ?es)) c'"
      and h: "Some hc = (if SetOnUpdate 2 = SetOnCreate 2 then Some 2 else priv_oncreate (snd ?r))"
        "Some hu = (if SetOnUpdate 2 = SetOnUpdate 2 then Some 2 else priv_onupdate (snd ?r))"
      by blast
    from h p have "hc = 1" "hu = 2"
      by simp_all
    with s rc show ?thesis
      by (simp add: callback_for_def)
  qed
  from by_delete by_create by_update show ?thesis by blast
qed

theorem gate_completeness_witness:
  "fst (run [WsMessage (Json (JObj [(''method'', JStr ''UPDATE''), (''id'', JStr ''42''),
                                    (''item'', JObj [(''id'', JStr ''42''), (''v'', JNum 1)])])),
             SetOnCreate 1, SetOnUpdate 2, SetOnDelete 3]
          (fresh ''ws://localhost:8080/livegollection''))
     = [CallOnUpdate 2 (JObj [(''id'', JStr ''42''), (''v'', JNum 1)])] \<and>
   handlers_ready
     (snd (run [WsMessage (Json (JObj [(''method'', JStr ''UPDATE''), (''id'', JStr ''42''),
                                       (''item'', JObj [(''id'', JStr ''42''), (''v'', JNum 1)])])),
                SetOnCreate 1, SetOnUpdate 2, SetOnDelete 3]
             (fresh ''ws://localhost:8080/livegollection''))) \<and>
   priv_ondelete
     (snd (run [WsMessage (Json (JObj [(''method'', JStr ''UPDATE''), (''id'', JStr ''42''),
                                       (''item'', JObj [(''id'', JStr ''42''), (''v'', JNum 1)])])),
                SetOnCreate 1, SetOnUpdate 2, SetOnDelete 3]
             (fresh ''ws://localhost:8080/livegollection''))) \<noteq> None"
proof -
  let ?es = "[WsMessage (Json (JObj [(''method'', JStr ''UPDATE''), (''id'', JStr ''42''),
                                    (''item'', JObj [(''id'', JStr ''42''), (''v'', JNum 1)])])),
             SetOnCreate 1, SetOnUpdate 2, SetOnDelete 3]"
  let ?r = "run ?es (fresh ''ws://localhost:8080/livegollection'')"
  have r: "?r = (fst ?r, snd ?r)"
    by simp
  have t: "fst ?r = [CallOnUpdate 2 (JObj [(''id'', JStr ''42''), (''v'', JNum 1)])]"
    by (simp add: run_defs)
  then have "filter is_mutation_call (fst ?r) \<noteq> []"
    by simp
  with gate_completeness [OF r, of JNull]
  have "handlers_ready (snd ?r) \<and> priv_ondelete (snd ?r) \<noteq> None"
    by blast
  with t show ?thesis by blast
qed


section \<open>The queue of outbound messages\<close>


lemma call_not_send: "is_mutation_call x \<Longrightarrow> \<not> is_send x \<and> \<not> is_open_call x \<and> \<not> is_close_call x"
  by (cases x) simp_all

lemma forEach_no_sends:
  "filter is_send (fst (forEach_processUpdate c ms)) = []"
  "filter is_open_call (fst (forEach_processUpdate c ms)) = []"
  "filter is_close_call (fst (forEach_processUpdate c ms)) = []"
  using forEach_calls [of _ c ms] call_not_send by (auto simp: filter_empty_conv)

lemma processUpdate_no_sends:
  "processUpdate c m = Inr effs \<Longrightarrow>
   filter is_send effs = [] \<and> filter is_open_call effs = [] \<and> filter is_close_call effs = []"
  by (auto simp: processUpdate_def split: if_splits option.splits)

lemma sends_of_sends [simp]:
  "filter is_send (map WsSend ms) = map WsSend ms"
  "filter is_open_call (map WsSend ms) = []"
  "filter is_close_call (map WsSend ms) = []"
  by (induction ms) simp_all

text \<open>The handlers' setters and the message handler send nothing and leave the queue alone.\<close>

lemma quiet_set_oncreate:
  "filter is_send (observed (set_oncreate h c)) = [] \<and>
   filter is_open_call (observed (set_oncreate h c)) = [] \<and>
   filter is_close_call (observed (set_oncreate h c)) = [] \<and>
   cachedUpdatesToSend (client_of (set_oncreate h c)) = cachedUpdatesToSend c \<and>
   hasConnBeenOpened (client_of (set_oncreate h c)) = hasConnBeenOpened c \<and>
   hasConnBeenClosed (client_of (set_oncreate h c)) = hasConnBeenClosed c \<and>
   priv_onopen (client_of (set_oncreate h c)) = priv_onopen c \<and>
   isOnOpenSet (client_of (set_oncreate h c)) = isOnOpenSet c \<and>
   priv_onclose (client_of (set_oncreate h c)) = priv_onclose c \<and>
   isOnCloseSet (client_of (set_oncreate h c)) = isOnCloseSet c"
proof -
  let ?c1 = "c\<lparr>priv_oncreate := Some h\<rparr>"
  obtain effs r where f: "forEach_processUpdate ?c1 (cachedReceivedUpdates c) = (effs, r)"
    by (cases "forEach_processUpdate ?c1 (cachedReceivedUpdates c)")
  with forEach_no_sends [of ?c1 "cachedReceivedUpdates c"]
  have "filter is_send effs = []" "filter is_open_call effs = []" "filter is_close_call effs = []"
    by simp_all
  with f show ?thesis
    by (cases r) (simp_all add: set_oncreate_def Let_def)
qed

lemma quiet_set_onupdate:
  "filter is_send (observed (set_onupdate h c)) = [] \<and>
   filter is_open_call (observed (set_onupdate h c)) = [] \<and>
   filter is_close_call (observed (set_onupdate h c)) = [] \<and>
   cachedUpdatesToSend (client_of (set_onupdate h c)) = cachedUpdatesToSend c \<and>
   hasConnBeenOpened (client_of (set_onupdate h c)) = hasConnBeenOpened c \<and>
   hasConnBeenClosed (client_of (set_onupdate h c)) = hasConnBeenClosed c \<and>
   priv_onopen (client_of (set_onupdate h c)) = priv_onopen c \<and>
   isOnOpenSet (client_of (set_onupdate h c)) = isOnOpenSet c \<and>
   priv_onclose (client_of (set_onupdate h c)) = priv_onclose c \<and>
   isOnCloseSet (client_of (set_onupdate h c)) = isOnCloseSet c"
proof -
  let ?c1 = "c\<lparr>priv_onupdate := Some h\<rparr>"
  obtain effs r where f: "forEach_processUpdate ?c1 (cachedReceivedUpdates c) = (effs, r)"
    by (cases "forEach_processUpdate ?c1 (cachedReceivedUpdates c)")
  with forEach_no_sends [of ?c1 "cachedReceivedUpdates c"]
  have "filter is_send effs = []" "filter is_open_call effs = []" "filter is_close_call effs = []"
    by simp_all
  with f show ?thesis
    by (cases r) (simp_all add: set_onupdate_def Let_def)
qed

lemma quiet_set_ondelete:
  "filter is_send (observed (set_ondelete h c)) = [] \<and>
   filter is_open_call (observed (set_ondelete h c)) = [] \<and>
   filter is_close_call (observed (set_ondelete h c)) = [] \<and>
   cachedUpdatesToSend (client_of (set_ondelete h c)) = cachedUpdatesToSend c \<and>
   hasConnBeenOpened (client_of (set_ondelete h c)) = hasConnBeenOpened c \<and>
   hasConnBeenClosed (client_of (set_ondelete h c)) = hasConnBeenClosed c \<and>
   priv_onopen (client_of (set_ondelete h c)) = priv_onopen c \<and>
   isOnOpenSet (client_of (set_ondelete h c)) = isOnOpenSet c \<and>
   priv_onclose (client_of (set_ondelete h c)) = priv_onclose c \<and>
   isOnCloseSet (client_of (set_ondelete h c)) = isOnCloseSet c"
proof -
  let ?c1 = "c\<lparr>priv_ondelete := Some h\<rparr>"
  obtain effs r where f: "forEach_processUpdate ?c1 (cachedReceivedUpdates c) = (effs, r)"
    by (cases "forEach_processUpdate ?c1 (cachedReceivedUpdates c)")
  with forEach_no_sends [of ?c1 "cachedReceivedUpdates c"]
  have "filter is_send effs = []" "filter is_open_call effs = []" "filter is_close_call effs = []"
    by simp_all
  with f show ?thesis
    by (cases r) (simp_all add: set_ondelete_def Let_def)
qed

lemma quiet_ws_onmessage:
  "filter is_send (observed (ws_onmessage d c)) = [] \<and>
   filter is_open_call (observed (ws_onmessage d c)) = [] \<and>
   filter is_close_call (observed (ws_onmessage d c)) = [] \<and>
   cachedUpdatesToSend (client_of (ws_onmessage d c)) = cachedUpdatesToSend c \<and>
   hasConnBeenOpened (client_of (ws_onmessage d c)) = hasConnBeenOpened c \<and>
   hasConnBeenClosed (client_of (ws_onmessage d c)) = hasConnBeenClosed c \<and>
   priv_onopen (client_of (ws_onmessage d c)) = priv_onopen c \<and>
   isOnOpenSet (client_of (ws_onmessage d c)) = isOnOpenSet c \<and>
   priv_onclose (client_of (ws_onmessage d c)) = priv_onclose c \<and>
   isOnCloseSet (client_of (ws_onmessage d c)) = isOnCloseSet c"
proof (cases "JSON_parse d")
  case (Inl e)
  then show ?thesis by (simp add: ws_onmessage_def)
next
  case (Inr m)
  show ?thesis
  proof (cases "isUpdateMessage m")
    case (Inl e)
    with Inr show ?thesis by (simp add: ws_onmessage_def)
  next
    case v: (Inr b)
    show ?thesis
    proof (cases "processUpdate c m")
      case (Inl e)
      with Inr v show ?thesis by (simp add: ws_onmessage_def)
    next
      case p: (Inr effs)
      with processUpdate_no_sends [OF p] Inr v show ?thesis by (simp add: ws_onmessage_def)
    qed
  qed
qed

lemmas quiet = quiet_set_oncreate quiet_set_onupdate quiet_set_ondelete quiet_ws_onmessage

lemma step_out:
  assumes "wired c"
  shows "filter is_send (observed (step e c)) @
           map WsSend (cachedUpdatesToSend (client_of (step e c))) =
         map WsSend (cachedUpdatesToSend c @ request_of e)"
proof (cases e)
  case WsOpen
  with assms show ?thesis
    by (auto simp: ws_onopen_def wired_def Let_def split: option.splits)
next
  case (Create it)
  with assms show ?thesis
    by (auto simp: create_def craftAndSendUpdateMessage_def wired_def Let_def)
next
  case (Update it)
  with assms show ?thesis
    by (auto simp: update_def craftAndSendUpdateMessage_def wired_def Let_def)
next
  case (Delete it)
  with assms show ?thesis
    by (auto simp: delete_def craftAndSendUpdateMessage_def wired_def Let_def)
qed (simp_all add: quiet ws_onclose_def set_onopen_def set_onclose_def Let_def split: option.splits)

lemma run_out:
  "wired c \<Longrightarrow> run es c = (tr, c') \<Longrightarrow>
   filter is_send tr @ map WsSend (cachedUpdatesToSend c') =
   map WsSend (cachedUpdatesToSend c @ requested es)"
proof (induction es arbitrary: c tr)
  case Nil
  then show ?case by (simp add: requested_def)
next
  case (Cons e es)
  let ?c1 = "client_of (step e c)"
  obtain tr1 where r: "run es ?c1 = (tr1, c')" and tr: "tr = observed (step e c) @ tr1"
    using Cons.prems(2) by (auto split: prod.splits)
  have "filter is_send tr @ map WsSend (cachedUpdatesToSend c') =
      filter is_send (observed (step e c)) @
        (filter is_send tr1 @ map WsSend (cachedUpdatesToSend c'))"
    by (simp add: tr)
  also have "\<dots> = filter is_send (observed (step e c)) @
        map WsSend (cachedUpdatesToSend ?c1 @ requested es)"
    using Cons.IH [OF wired_step [OF Cons.prems(1)] r] by simp
  also have "\<dots> = map WsSend (cachedUpdatesToSend c @ request_of e) @ map WsSend (requested es)"
    using step_out [OF Cons.prems(1), of e] by simp
  finally show ?case by (simp add: requested_def)
qed


lemma step_unopened:
  assumes "e \<noteq> WsOpen" "\<not> hasConnBeenOpened c"
  shows "filter is_send (observed (step e c)) = [] \<and>
    cachedUpdatesToSend (client_of (step e c)) = cachedUpdatesToSend c @ request_of e \<and>
    \<not> hasConnBeenOpened (client_of (step e c))"
  using assms
  by (cases e)
    (simp_all add: quiet ws_onclose_def set_onopen_def set_onclose_def create_def update_def
      delete_def craftAndSendUpdateMessage_def Let_def split: option.splits)

lemma run_unopened:
  "WsOpen \<notin> set es \<Longrightarrow> \<not> hasConnBeenOpened c \<Longrightarrow> run es c = (tr, c') \<Longrightarrow>
   filter is_send tr = [] \<and> cachedUpdatesToSend c' = cachedUpdatesToSend c @ requested es \<and>
   \<not> hasConnBeenOpened c'"
proof (induction es arbitrary: c tr)
  case Nil
  then show ?case by (simp add: requested_def)
next
  case (Cons e es)
  let ?c1 = "client_of (step e c)"
  obtain tr1 where r: "run es ?c1 = (tr1, c')" and tr: "tr = observed (step e c) @ tr1"
    using Cons.prems(3) by (auto split: prod.splits)
  from Cons.prems(1) have e: "e \<noteq> WsOpen" and es: "WsOpen \<notin> set es"
    by auto
  note s = step_unopened [OF e Cons.prems(2)]
  from s have n: "\<not> hasConnBeenOpened ?c1" by blast
  from Cons.IH [OF es n r] s tr show ?case
    by (simp add: requested_def)
qed

lemma mutation_returns:
  "returns (create it c)" "returns (update it c)" "returns (delete it c)"
  by (simp_all add: create_def update_def delete_def craftAndSendUpdateMessage_def Let_def)

text \<open>
  C10. Take any run from the constructor in which the open event never fires, wherever
  the close event falls in it. Nothing is sent to the transport; the queue holds the
  encoded message of every mutation call of the run, in the order of the calls, so a
  message once queued is in the queue at every later moment of such a run; and a
  mutation call always returns, whatever the state of the client.
\<close>

theorem queue_without_open:
  assumes "run es (fresh u) = (tr, c)" and "WsOpen \<notin> set es"
  shows "filter is_send tr = [] \<and> cachedUpdatesToSend c = requested es \<and>
    \<not> hasConnBeenOpened c \<and>
    returns (create it c0) \<and> returns (update it c0) \<and> returns (delete it c0)"
  using run_unopened [OF assms(2) fresh_cache(3) assms(1)]
  by (simp add: fresh_cache mutation_returns)

theorem queue_without_open_witness:
  "WsOpen \<notin> set [Create [(''fieldOne'', JStr ''x'')], WsClose, Update [(''id'', JStr ''42'')]] \<and>
   filter is_send
     (fst (run [Create [(''fieldOne'', JStr ''x'')], WsClose, Update [(''id'', JStr ''42'')]]
             (fresh ''ws://localhost:8080/livegollection''))) = [] \<and>
   cachedUpdatesToSend
     (snd (run [Create [(''fieldOne'', JStr ''x'')], WsClose, Update [(''id'', JStr ''42'')]]
             (fresh ''ws://localhost:8080/livegollection''))) =
     [JObj [(''method'', JStr ''CREATE''), (''item'', JObj [(''fieldOne'', JStr ''x'')])],
      JObj [(''method'', JStr ''UPDATE''), (''item'', JObj [(''id'', JStr ''42'')]),
            (''id'', JStr ''42'')]] \<and>
   hasConnBeenClosed
     (snd (run [Create [(''fieldOne'', JStr ''x'')], WsClose, Update [(''id'', JStr ''42'')]]
             (fresh ''ws://localhost:8080/livegollection'')))"
proof -
  let ?es = "[Create [(''fieldOne'', JStr ''x'')], WsClose, Update [(''id'', JStr ''42'')]]"
  let ?r = "run ?es (fresh ''ws://localhost:8080/livegollection'')"
  have r: "?r = (fst ?r, snd ?r)"
    by simp
  have n: "WsOpen \<notin> set ?es"
    by simp
  have q: "requested ?es =
     [JObj [(''method'', JStr ''CREATE''), (''item'', JObj [(''fieldOne'', JStr ''x'')])],
      JObj [(''method'', JStr ''UPDATE''), (''item'', JObj [(''id'', JStr ''42'')]),
            (''id'', JStr ''42'')]]"
    by (simp add: requested_def updMess_of_def ms_defs)
  have cl: "hasConnBeenClosed (snd ?r)"
    by (simp add: run_defs)
  from queue_without_open [OF r n, of "[]" "fresh []"] q n cl show ?thesis
    by simp
qed

text \<open>
  C3. A mutation call made while the connection has not been opened appends its encoded
  message to the queue and sends nothing. In every run from the constructor, what has
  been sent followed by what is queued is the list of the messages of the mutation calls,
  each once and in the order of the calls. If the open event has not fired in the run,
  nothing has been sent, and the open event then returns having invoked the open handler
  first, if one is registered, and sent the queued messages after it, in that order; the
  queue is empty afterwards.
\<close>

theorem queue_then_flush:
  assumes "run es (fresh u) = (tr, c)"
  shows "(\<not> hasConnBeenOpened c0 \<longrightarrow>
       craftAndSendUpdateMessage it m c0 =
         Returns [] (c0\<lparr>cachedUpdatesToSend := cachedUpdatesToSend c0 @ [updMess_of it m]\<rparr>)) \<and>
    filter is_send tr @ map WsSend (cachedUpdatesToSend c) = map WsSend (requested es) \<and>
    (isOnOpenSet c \<longrightarrow> priv_onopen c \<noteq> None) \<and>
    (WsOpen \<notin> set es \<longrightarrow>
       filter is_send tr = [] \<and> cachedUpdatesToSend c = requested es \<and>
       ws_onopen c =
         Returns ((if isOnOpenSet c then [CallOnOpen (the (priv_onopen c))] else []) @
                  map WsSend (requested es))
           (c\<lparr>hasConnBeenOpened := True, cachedUpdatesToSend := []\<rparr>))"
proof -
  have w: "wired c" using wired_run [OF wired_fresh assms] .
  have a: "\<not> hasConnBeenOpened c0 \<longrightarrow>
       craftAndSendUpdateMessage it m c0 =
         Returns [] (c0\<lparr>cachedUpdatesToSend := cachedUpdatesToSend c0 @ [updMess_of it m]\<rparr>)"
    by (simp add: craftAndSendUpdateMessage_def Let_def)
  have b: "filter is_send tr @ map WsSend (cachedUpdatesToSend c) = map WsSend (requested es)"
    using run_out [OF wired_fresh assms] by (simp add: fresh_cache)
  have c: "isOnOpenSet c \<longrightarrow> priv_onopen c \<noteq> None"
    using w by (simp add: wired_def)
  have d: "WsOpen \<notin> set es \<longrightarrow>
       filter is_send tr = [] \<and> cachedUpdatesToSend c = requested es \<and>
       ws_onopen c =
         Returns ((if isOnOpenSet c then [CallOnOpen (the (priv_onopen c))] else []) @
                  map WsSend (requested es))
           (c\<lparr>hasConnBeenOpened := True, cachedUpdatesToSend := []\<rparr>)"
  proof
    assume n: "WsOpen \<notin> set es"
    from run_unopened [OF n fresh_cache(3) assms]
    have q: "filter is_send tr = []" "cachedUpdatesToSend c = requested es"
      by (simp_all add: fresh_cache)
    have "ws_onopen c =
         Returns ((if isOnOpenSet c then [CallOnOpen (the (priv_onopen c))] else []) @
                  map WsSend (cachedUpdatesToSend c))
           (c\<lparr>hasConnBeenOpened := True, cachedUpdatesToSend := []\<rparr>)"
      using c by (auto simp: ws_onopen_def Let_def)
    with q show "filter is_send tr = [] \<and> cachedUpdatesToSend c = requested es \<and>
       ws_onopen c =
         Returns ((if isOnOpenSet c then [CallOnOpen (the (priv_onopen c))] else []) @
                  map WsSend (requested es))
           (c\<lparr>hasConnBeenOpened := True, cachedUpdatesToSend := []\<rparr>)"
      by simp
  qed
  from a b c d show ?thesis by blast
qed

theorem queue_then_flush_witness:
  "(fst (run [Create [(''fieldOne'', JStr ''x'')], SetOnOpen 5, Update [(''id'', JStr ''42'')],
             WsOpen, Delete [(''id'', JStr ''42'')]]
          (fresh ''ws://localhost:8080/livegollection'')) =
     [CallOnOpen 5,
      WsSend (JObj [(''method'', JStr ''CREATE''), (''item'', JObj [(''fieldOne'', JStr ''x'')])]),
      WsSend (JObj [(''method'', JStr ''UPDATE''), (''item'', JObj [(''id'', JStr ''42'')]),
                    (''id'', JStr ''42'')]),
      WsSend (JObj [(''method'', JStr ''DELETE''), (''item'', JObj [(''id'', JStr ''42'')]),
                    (''id'', JStr ''42'')])] \<and>
   cachedUpdatesToSend
     (snd (run [Create [(''fieldOne'', JStr ''x'')], SetOnOpen 5, Update [(''id'', JStr ''42'')],
                WsOpen, Delete [(''id'', JStr ''42'')]]
             (fresh ''ws://localhost:8080/livegollection''))) = []) \<and>
   (WsOpen \<notin> set [Create [(''fieldOne'', JStr ''x'')], SetOnOpen 5, Update [(''id'', JStr ''42'')]] \<and>
   cachedUpdatesToSend
     (snd (run [Create [(''fieldOne'', JStr ''x'')], SetOnOpen 5, Update [(''id'', JStr ''42'')]]
             (fresh ''ws://localhost:8080/livegollection''))) =
     [JObj [(''method'', JStr ''CREATE''), (''item'', JObj [(''fieldOne'', JStr ''x'')])],
      JObj [(''method'', JStr ''UPDATE''), (''item'', JObj [(''id'', JStr ''42'')]),
            (''id'', JStr ''42'')]] \<and>
   effects_of (ws_onopen
     (snd (run [Create [(''fieldOne'', JStr ''x'')], SetOnOpen 5, Update [(''id'', JStr ''42'')]]
             (fresh ''ws://localhost:8080/livegollection'')))) =
     [CallOnOpen 5,
      WsSend (JObj [(''method'', JStr ''CREATE''), (''item'', JObj [(''fieldOne'', JStr ''x'')])]),
      WsSend (JObj [(''method'', JStr ''UPDATE''), (''item'', JObj [(''id'', JStr ''42'')]),
                    (''id'', JStr ''42'')])] \<and>
   cachedUpdatesToSend (client_of (ws_onopen
     (snd (run [Create [(''fieldOne'', JStr ''x'')], SetOnOpen 5, Update [(''id'', JStr ''42'')]]
             (fresh ''ws://localhost:8080/livegollection''))))) = [])"
proof -
  have after_open: "fst (run [Create [(''fieldOne'', JStr ''x'')], SetOnOpen 5, Update [(''id'', JStr ''42'')],
             WsOpen, Delete [(''id'', JStr ''42'')]]
          (fresh ''ws://localhost:8080/livegollection'')) =
     [CallOnOpen 5,
      WsSend (JObj [(''method'', JStr ''CREATE''), (''item'', JObj [(''fieldOne'', JStr ''x'')])]),
      WsSend (JObj [(''method'', JStr ''UPDATE''), (''item'', JObj [(''id'', JStr ''42'')]),
                    (''id'', JStr ''42'')]),
      WsSend (JObj [(''method'', JStr ''DELETE''), (''item'', JObj [(''id'', JStr ''42'')]),
                    (''id'', JStr ''42'')])] \<and>
   cachedUpdatesToSend
     (snd (run [Create [(''fieldOne'', JStr ''x'')], SetOnOpen 5, Update [(''id'', JStr ''42'')],
                WsOpen, Delete [(''id'', JStr ''42'')]]
             (fresh ''ws://localhost:8080/livegollection''))) = []"
  proof -
    let ?es = "[Create [(''fieldOne'', JStr ''x'')], SetOnOpen 5, Update [(''id'', JStr ''42'')],
               WsOpen, Delete [(''id'', JStr ''42'')]]"
    let ?r = "run ?es (fresh ''ws://localhost:8080/livegollection'')"
    have r: "?r = (fst ?r, snd ?r)"
      by simp
    have t: "fst ?r =
       [CallOnOpen 5,
        WsSend (JObj [(''method'', JStr ''CREATE''), (''item'', JObj [(''fieldOne'', JStr ''x'')])]),
        WsSend (JObj [(''method'', JStr ''UPDATE''), (''item'', JObj [(''id'', JStr ''42'')]),
                      (''id'', JStr ''42'')]),
        WsSend (JObj [(''method'', JStr ''DELETE''), (''item'', JObj [(''id'', JStr ''42'')]),
                      (''id'', JStr ''42'')])]"
      by (simp add: run_defs)
    have q: "requested ?es =
       [JObj [(''method'', JStr ''CREATE''), (''item'', JObj [(''fieldOne'', JStr ''x'')])],
        JObj [(''method'', JStr ''UPDATE''), (''item'', JObj [(''id'', JStr ''42'')]),
              (''id'', JStr ''42'')],
        JObj [(''method'', JStr ''DELETE''), (''item'', JObj [(''id'', JStr ''42'')]),
              (''id'', JStr ''42'')]]"
      by (simp add: requested_def updMess_of_def ms_defs)
    from queue_then_flush [OF r, of "fresh []" "[]" CREATE]
    have "filter is_send (fst ?r) @ map WsSend (cachedUpdatesToSend (snd ?r)) =
        map WsSend (requested ?es)"
      by blast
    with t q have "cachedUpdatesToSend (snd ?r) = []"
      by simp
    with t show ?thesis by blast
  qed
  have at_open: "WsOpen \<notin> set [Create [(''fieldOne'', JStr ''x'')], SetOnOpen 5, Update [(''id'', JStr ''42'')]] \<and>
   cachedUpdatesToSend
     (snd (run [Create [(''fieldOne'', JStr ''x'')], SetOnOpen 5, Update [(''id'', JStr ''42'')]]
             (fresh ''ws://localhost:8080/livegollection''))) =
     [JObj [(''method'', JStr ''CREATE''), (''item'', JObj [(''fieldOne'', JStr ''x'')])],
      JObj [(''method'', JStr ''UPDATE''), (''item'', JObj [(''id'', JStr ''42'')]),
            (''id'', JStr ''42'')]] \<and>
   effects_of (ws_onopen
     (snd (run [Create [(''fieldOne'', JStr ''x'')], SetOnOpen 5, Update [(''id'', JStr ''42'')]]
             (fresh ''ws://localhost:8080/livegollection'')))) =
     [CallOnOpen 5,
      WsSend (JObj [(''method'', JStr ''CREATE''), (''item'', JObj [(''fieldOne'', JStr ''x'')])]),
      WsSend (JObj [(''method'', JStr ''UPDATE''), (''item'', JObj [(''id'', JStr ''42'')]),
                    (''id'', JStr ''42'')])] \<and>
   cachedUpdatesToSend (client_of (ws_onopen
     (snd (run [Create [(''fieldOne'', JStr ''x'')], SetOnOpen 5, Update [(''id'', JStr ''42'')]]
             (fresh ''ws://localhost:8080/livegollection''))))) = []"
  proof -
    let ?es = "[Create [(''fieldOne'', JStr ''x'')], SetOnOpen 5, Update [(''id'', JStr ''42'')]]"
    let ?r = "run ?es (fresh ''ws://localhost:8080/livegollection'')"
    have r: "?r = (fst ?r, snd ?r)"
      by simp
    have n: "WsOpen \<notin> set ?es"
      by simp
    have q: "requested ?es =
       [JObj [(''method'', JStr ''CREATE''), (''item'', JObj [(''fieldOne'', JStr ''x'')])],
        JObj [(''method'', JStr ''UPDATE''), (''item'', JObj [(''id'', JStr ''42'')]),
              (''id'', JStr ''42'')]]"
      by (simp add: requested_def updMess_of_def ms_defs)
    have h: "isOnOpenSet (snd ?r)" "priv_onopen (snd ?r) = Some 5"
      by (simp_all add: run_defs)
    from queue_then_flush [OF r, of "fresh []" "[]" CREATE] n
    have k: "cachedUpdatesToSend (snd ?r) = requested ?es \<and>
        ws_onopen (snd ?r) =
          Returns ((if isOnOpenSet (snd ?r) then [CallOnOpen (the (priv_onopen (snd ?r)))] else []) @
                   map WsSend (requested ?es))
            ((snd ?r)\<lparr>hasConnBeenOpened := True, cachedUpdatesToSend := []\<rparr>)"
      by blast
    from k have a: "cachedUpdatesToSend (snd ?r) = requested ?es"
      by blast
    from k have b: "ws_onopen (snd ?r) =
          Returns ((if isOnOpenSet (snd ?r) then [CallOnOpen (the (priv_onopen (snd ?r)))] else []) @
                   map WsSend (requested ?es))
            ((snd ?r)\<lparr>hasConnBeenOpened := True, cachedUpdatesToSend := []\<rparr>)"
      by blast
    have c: "effects_of (ws_onopen (snd ?r)) = CallOnOpen 5 # map WsSend (requested ?es)"
      by (simp only: b effects_of.simps h if_True option.sel append_Cons append_Nil)
    have d: "cachedUpdatesToSend (client_of (ws_onopen (snd ?r))) = []"
      by (simp only: b client_of.simps) simp
    from n a c d show ?thesis
      by (simp only: q list.map) simp
  qed
  from after_open at_open show ?thesis by (rule conjI)
qed

section \<open>Open and close handlers, and registering again\<close>











text \<open>
  C8. Assigning a mutation handler whose flag is already set only replaces the handler:
  no callback, no drain, the cache and the flags as they were. A setter invokes callbacks
  only when its own flag is unset and the other two are set, that is on the first
  transition into all three set. And in every run from the constructor the cache is empty
  once the three are set.
\<close>

theorem idempotent_registration:
  "(isOnCreateSet c \<longrightarrow> set_oncreate h c = Returns [] (c\<lparr>priv_oncreate := Some h\<rparr>)) \<and>
   (isOnUpdateSet c \<longrightarrow> set_onupdate h c = Returns [] (c\<lparr>priv_onupdate := Some h\<rparr>)) \<and>
   (isOnDeleteSet c \<longrightarrow> set_ondelete h c = Returns [] (c\<lparr>priv_ondelete := Some h\<rparr>)) \<and>
   (effects_of (set_oncreate h c) \<noteq> [] \<longrightarrow>
      \<not> isOnCreateSet c \<and> isOnUpdateSet c \<and> isOnDeleteSet c) \<and>
   (effects_of (set_onupdate h c) \<noteq> [] \<longrightarrow>
      isOnCreateSet c \<and> \<not> isOnUpdateSet c \<and> isOnDeleteSet c) \<and>
   (effects_of (set_ondelete h c) \<noteq> [] \<longrightarrow>
      isOnCreateSet c \<and> isOnUpdateSet c \<and> \<not> isOnDeleteSet c) \<and>
   (run es (fresh u) = (tr, c) \<and> handlers_ready c \<longrightarrow> cachedReceivedUpdates c = [])"
proof -
  have a: "isOnCreateSet c \<longrightarrow> set_oncreate h c = Returns [] (c\<lparr>priv_oncreate := Some h\<rparr>)"
    by (simp add: set_oncreate_def)
  have b: "isOnUpdateSet c \<longrightarrow> set_onupdate h c = Returns [] (c\<lparr>priv_onupdate := Some h\<rparr>)"
    by (simp add: set_onupdate_def)
  have d: "isOnDeleteSet c \<longrightarrow> set_ondelete h c = Returns [] (c\<lparr>priv_ondelete := Some h\<rparr>)"
    by (simp add: set_ondelete_def)
  have a': "effects_of (set_oncreate h c) \<noteq> [] \<longrightarrow>
      \<not> isOnCreateSet c \<and> isOnUpdateSet c \<and> isOnDeleteSet c"
  proof -
    have "effects_of (set_oncreate h c) = []" if "\<not> (\<not> isOnCreateSet c \<and> isOnUpdateSet c \<and> isOnDeleteSet c)"
      using set_oncreate_plain [OF that, of h] by simp
    then show ?thesis by blast
  qed
  have b': "effects_of (set_onupdate h c) \<noteq> [] \<longrightarrow>
      isOnCreateSet c \<and> \<not> isOnUpdateSet c \<and> isOnDeleteSet c"
  proof -
    have "effects_of (set_onupdate h c) = []" if "\<not> (isOnCreateSet c \<and> \<not> isOnUpdateSet c \<and> isOnDeleteSet c)"
      using set_onupdate_plain [OF that, of h] by simp
    then show ?thesis by blast
  qed
  have d': "effects_of (set_ondelete h c) \<noteq> [] \<longrightarrow>
      isOnCreateSet c \<and> isOnUpdateSet c \<and> \<not> isOnDeleteSet c"
  proof -
    have "effects_of (set_ondelete h c) = []" if "\<not> (isOnCreateSet c \<and> isOnUpdateSet c \<and> \<not> isOnDeleteSet c)"
      using set_ondelete_plain [OF that, of h] by simp
    then show ?thesis by blast
  qed
  have e: "run es (fresh u) = (tr, c) \<and> handlers_ready c \<longrightarrow> cachedReceivedUpdates c = []"
  proof
    assume r: "run es (fresh u) = (tr, c) \<and> handlers_ready c"
    then have "wired c"
      using wired_run [OF wired_fresh] by blast
    with r show "cachedReceivedUpdates c = []"
      by (simp add: wired_def)
  qed
  from a b d a' b' d' e show ?thesis by blast
qed

theorem idempotent_registration_witness:
  "handlers_ready
     (snd (run [WsMessage (Json (JObj [(''method'', JStr ''DELETE''), (''id'', JStr ''9''),
                                       (''item'', JObj [(''id'', JStr ''9'')])])),
                SetOnCreate 1, SetOnUpdate 2, SetOnDelete 3]
             (fresh ''ws://localhost:8080/livegollection''))) \<and>
   cachedReceivedUpdates
     (snd (run [WsMessage (Json (JObj [(''method'', JStr ''DELETE''), (''id'', JStr ''9''),
                                       (''item'', JObj [(''id'', JStr ''9'')])])),
                SetOnCreate 1, SetOnUpdate 2, SetOnDelete 3]
             (fresh ''ws://localhost:8080/livegollection''))) = [] \<and>
   effects_of (set_oncreate 4
     (snd (run [WsMessage (Json (JObj [(''method'', JStr ''DELETE''), (''id'', JStr ''9''),
                                       (''item'', JObj [(''id'', JStr ''9'')])])),
                SetOnCreate 1, SetOnUpdate 2, SetOnDelete 3]
             (fresh ''ws://localhost:8080/livegollection'')))) = []"
proof -
  let ?es = "[WsMessage (Json (JObj [(''method'', JStr ''DELETE''), (''id'', JStr ''9''),
                                       (''item'', JObj [(''id'', JStr ''9'')])])),
                SetOnCreate 1, SetOnUpdate 2, SetOnDelete 3]"
  let ?r = "run ?es (fresh ''ws://localhost:8080/livegollection'')"
  have r: "?r = (fst ?r, snd ?r)"
    by simp
  have hr: "handlers_ready (snd ?r)"
    by (simp add: run_defs)
  then have cs: "isOnCreateSet (snd ?r)"
    by (simp add: handlers_ready_def)
  note t = idempotent_registration [of "snd ?r" 4 ?es "''ws://localhost:8080/livegollection''" "fst ?r"]
  from t r hr have e: "cachedReceivedUpdates (snd ?r) = []"
    by blast
  from t cs have "set_oncreate 4 (snd ?r) = Returns [] ((snd ?r)\<lparr>priv_oncreate := Some 4\<rparr>)"
    by blast
  then have "effects_of (set_oncreate 4 (snd ?r)) = []"
    by simp
  with hr e show ?thesis by blast
qed


section \<open>The lifecycle and the flags only move forward\<close>


lemma states_ge:
  fixes f :: "client \<Rightarrow> 'a::linorder"
  assumes "\<And>e c. f c \<le> f (client_of (step e c))"
  shows "x \<in> set (states es c) \<Longrightarrow> f c \<le> f x"
proof (induction es arbitrary: c)
  case Nil
  then show ?case by simp
next
  case (Cons e es)
  then show ?case
    using assms [of c e] by (auto intro: order_trans)
qed

lemma states_sorted:
  fixes f :: "client \<Rightarrow> 'a::linorder"
  assumes "\<And>e c. f c \<le> f (client_of (step e c))"
  shows "sorted (map f (states es c))"
proof (induction es arbitrary: c)
  case Nil
  then show ?case by simp
next
  case (Cons e es)
  have "f c \<le> f x" if "x \<in> set (states es (client_of (step e c)))" for x
    using states_ge [of f x es "client_of (step e c)"] assms that
    by (blast intro: order_trans)
  with Cons show ?case by simp
qed

lemma sorted_distinct_adj:
  fixes xs :: "'a::linorder list"
  shows "sorted xs \<Longrightarrow> distinct_adj xs \<Longrightarrow> distinct xs"
proof (induction xs)
  case Nil
  then show ?case by simp
next
  case (Cons x xs)
  show ?case
  proof (cases xs)
    case Nil
    then show ?thesis by simp
  next
    case (Cons y ys)
    with Cons.prems have "x < y" "\<forall>z\<in>set xs. y \<le> z"
      by auto
    then have "x \<notin> set xs" by auto
    with Cons.IH Cons.prems Cons show ?thesis by simp
  qed
qed

lemma sorted_changes:
  fixes xs :: "'a::linorder list"
  shows "sorted xs \<Longrightarrow> distinct (remdups_adj xs)"
  by (simp add: sorted_distinct_adj)

lemma flag_changes:
  fixes xs :: "bool list"
  assumes "sorted xs"
  shows "length (remdups_adj xs) \<le> 2"
proof -
  have "length (remdups_adj xs) = card (set (remdups_adj xs))"
    using distinct_card [OF sorted_changes [OF assms]] by simp
  also have "\<dots> \<le> card (UNIV :: bool set)"
    by (intro card_mono) simp_all
  finally show ?thesis by simp
qed

lemma rank_le: "rank l \<le> 2"
  by (cases l) simp_all

lemma rank_changes:
  assumes "sorted (map rank ls)"
  shows "length (remdups_adj (map rank ls)) \<le> 3"
proof -
  have "length (remdups_adj (map rank ls)) = card (set (remdups_adj (map rank ls)))"
    using distinct_card [OF sorted_changes [OF assms]] by simp
  also have "\<dots> \<le> card {0..(2::nat)}"
    by (intro card_mono) (auto simp: rank_le)
  finally show ?thesis by simp
qed

lemma step_lifecycle: "rank (lifecycle_of c) \<le> rank (lifecycle_of (client_of (step e c)))"
  using step_flags(6,7) [of c e] by (auto simp: lifecycle_of_def)

text \<open>
  C9. Along every sequence of events, calls and registrations, from any client: the
  connection state never moves backwards in the order not-yet-open, open, closed, so it
  changes at most twice and no transition happens twice (a close event that comes before
  any open event takes it from not-yet-open to closed directly); the two booleans behind
  it only rise; and each of the five registration flags only rises, so it changes at most
  once, from false to true, and is never reset.
\<close>

theorem monotonic_lifecycle_and_flags:
  "sorted (map (\<lambda>c. rank (lifecycle_of c)) (states es c)) \<and>
   length (remdups_adj (map (\<lambda>c. rank (lifecycle_of c)) (states es c))) \<le> 3 \<and>
   sorted (map hasConnBeenOpened (states es c)) \<and>
   sorted (map hasConnBeenClosed (states es c)) \<and>
   sorted (map isOnCreateSet (states es c)) \<and>
   length (remdups_adj (map isOnCreateSet (states es c))) \<le> 2 \<and>
   sorted (map isOnUpdateSet (states es c)) \<and>
   length (remdups_adj (map isOnUpdateSet (states es c))) \<le> 2 \<and>
   sorted (map isOnDeleteSet (states es c)) \<and>
   length (remdups_adj (map isOnDeleteSet (states es c))) \<le> 2 \<and>
   sorted (map isOnOpenSet (states es c)) \<and>
   length (remdups_adj (map isOnOpenSet (states es c))) \<le> 2 \<and>
   sorted (map isOnCloseSet (states es c)) \<and>
   length (remdups_adj (map isOnCloseSet (states es c))) \<le> 2"
proof -
  have l: "sorted (map (\<lambda>c. rank (lifecycle_of c)) (states es c))"
    by (rule states_sorted) (rule step_lifecycle)
  have l': "length (remdups_adj (map (\<lambda>c. rank (lifecycle_of c)) (states es c))) \<le> 3"
    using rank_changes [of "map lifecycle_of (states es c)"] l by (simp add: comp_def)
  have o: "sorted (map hasConnBeenOpened (states es c))"
    by (rule states_sorted) (simp add: step_flags)
  have cl: "sorted (map hasConnBeenClosed (states es c))"
    by (rule states_sorted) (simp add: step_flags)
  have f1: "sorted (map isOnCreateSet (states es c))"
    by (rule states_sorted) (simp add: step_flags)
  have f2: "sorted (map isOnUpdateSet (states es c))"
    by (rule states_sorted) (simp add: step_flags)
  have f3: "sorted (map isOnDeleteSet (states es c))"
    by (rule states_sorted) (simp add: step_flags)
  have f4: "sorted (map isOnOpenSet (states es c))"
    by (rule states_sorted) (simp add: step_flags)
  have f5: "sorted (map isOnCloseSet (states es c))"
    by (rule states_sorted) (simp add: step_flags)
  from l l' o cl f1 f2 f3 f4 f5 flag_changes [OF f1] flag_changes [OF f2] flag_changes [OF f3]
    flag_changes [OF f4] flag_changes [OF f5]
  show ?thesis by blast
qed

theorem monotonic_lifecycle_and_flags_witness:
  "map lifecycle_of
     (states [SetOnOpen 1, WsOpen, Create [(''fieldOne'', JStr ''x'')], WsClose, SetOnOpen 2]
        (fresh ''ws://localhost:8080/livegollection''))
     = [NotYetOpen, NotYetOpen, Open, Open, Closed, Closed] \<and>
   sorted (map (\<lambda>c. rank (lifecycle_of c))
     (states [SetOnOpen 1, WsOpen, Create [(''fieldOne'', JStr ''x'')], WsClose, SetOnOpen 2]
        (fresh ''ws://localhost:8080/livegollection''))) \<and>
   map isOnOpenSet
     (states [SetOnOpen 1, WsOpen, Create [(''fieldOne'', JStr ''x'')], WsClose, SetOnOpen 2]
        (fresh ''ws://localhost:8080/livegollection''))
     = [False, True, True, True, True, True] \<and>
   length (remdups_adj (map isOnOpenSet
     (states [SetOnOpen 1, WsOpen, Create [(''fieldOne'', JStr ''x'')], WsClose, SetOnOpen 2]
        (fresh ''ws://localhost:8080/livegollection'')))) \<le> 2"
proof -
  let ?s = "states [SetOnOpen 1, WsOpen, Create [(''fieldOne'', JStr ''x'')], WsClose, SetOnOpen 2]
        (fresh ''ws://localhost:8080/livegollection'')"
  have a: "map lifecycle_of ?s = [NotYetOpen, NotYetOpen, Open, Open, Closed, Closed]"
    by (simp add: run_defs lifecycle_of_def)
  have b: "map isOnOpenSet ?s = [False, True, True, True, True, True]"
    by (simp add: run_defs)
  note t = monotonic_lifecycle_and_flags
    [of "[SetOnOpen 1, WsOpen, Create [(''fieldOne'', JStr ''x'')], WsClose, SetOnOpen 2]"
        "fresh ''ws://localhost:8080/livegollection''"]
  from t have c: "sorted (map (\<lambda>c. rank (lifecycle_of c)) ?s)"
    by blast
  from t have d: "length (remdups_adj (map isOnOpenSet ?s)) \<le> 2"
    by blast
  from a c b d show ?thesis by blast
qed


end
